theory Spec2Isabelle
  imports Complex_Main
begin

section \<open>Data model of \<open>Table.tsx\<close>\<close>

text \<open>
  Strings of the program are modelled as \<open>string\<close>: a character stands for the UTF-16
  code unit of the same number, so the model covers the strings whose code units are
  below 256. Numbers of the program that the component handles (\<open>id\<close>, \<open>page\<close>, the
  bounds of the id filter, array lengths) are integers and are modelled as \<open>int\<close>.
\<close>

record Post =
  id' :: int
  title :: string
  body :: string

datatype SortField = Id | Title

datatype SortOrder = Asc | Desc

record TableState =
  searchQuery :: string
  idFilter :: string
  sortField :: "SortField option"
  sortOrder :: SortOrder
  page :: int

text \<open>The literal passed to \<open>loadFromLocalStorage\<close> at lines 42 to 48.\<close>

definition defaultState :: TableState where
  "defaultState =
     \<lparr>searchQuery = [], idFilter = [], sortField = None, sortOrder = Asc, page = 1\<rparr>"

section \<open>Pagination\<close>

definition itemsPerPage :: int where
  "itemsPerPage = 8"

text \<open>
  \<open>Math.ceil(filteredData.length / itemsPerPage)\<close>, the expression of lines 145, 245
  and 250. The quotient of an array length by 8 is exact in the program's numbers, so
  it is taken in the rationals.
\<close>

definition pageCount :: "Post list \<Rightarrow> int" where
  "pageCount filteredData =
     \<lceil>(of_nat (length filteredData) :: rat) / of_int itemsPerPage\<rceil>"

text \<open>Lines 139 to 142: \<open>slice\<close> clips both indices into the array.\<close>

definition slice :: "'a list \<Rightarrow> int \<Rightarrow> int \<Rightarrow> 'a list" where
  "slice xs start end =
     (let n = int (length xs);
          k = (if start < 0 then max (n + start) 0 else min start n);
          e = (if end < 0 then max (n + end) 0 else min end n)
      in take (nat (e - k)) (drop (nat k) xs))"

definition currentData :: "Post list \<Rightarrow> TableState \<Rightarrow> Post list" where
  "currentData filteredData st =
     slice filteredData ((page st - 1) * itemsPerPage) (page st * itemsPerPage)"

section \<open>Event handlers\<close>

text \<open>
  Each handler is one discrete event: the \<open>state\<close> its guard reads and the \<open>prevState\<close>
  its updater receives are the same value, and the handler returns the next state.
\<close>

definition handleNextPage :: "Post list \<Rightarrow> TableState \<Rightarrow> TableState" where
  "handleNextPage filteredData st =
     (if page st < pageCount filteredData then st\<lparr>page := page st + 1\<rparr> else st)"

definition handlePrevPage :: "TableState \<Rightarrow> TableState" where
  "handlePrevPage st = (if page st > 1 then st\<lparr>page := page st - 1\<rparr> else st)"

definition handleSort :: "SortField \<Rightarrow> TableState \<Rightarrow> TableState" where
  "handleSort field prevState =
     prevState\<lparr>sortField := Some field,
               sortOrder := (if sortField prevState = Some field \<and> sortOrder prevState = Asc
                             then Desc else Asc)\<rparr>"

text \<open>
  \<open>handleInputChange(field: keyof TableState, value: string)\<close> builds
  \<open>{...prevState, [field]: value, page: 1}\<close>. The key is any of the five field names.
  Under \<open>page\<close> the computed entry is overwritten by the literal \<open>page: 1\<close> that follows
  it. Under \<open>sortField\<close> and \<open>sortOrder\<close> the string is stored as it is; the result is
  a \<open>TableState\<close> only when the string is one of the literals of the field's type, and
  the model returns \<open>None\<close> otherwise. The component calls the handler with
  \<open>idFilter\<close> (line 182) and \<open>searchQuery\<close> (line 196) only.
\<close>

datatype TableStateKey = KSearchQuery | KIdFilter | KSortField | KSortOrder | KPage

fun handleInputChange :: "TableStateKey \<Rightarrow> string \<Rightarrow> TableState \<Rightarrow> TableState option" where
  "handleInputChange KSearchQuery v prevState = Some (prevState\<lparr>searchQuery := v, page := 1\<rparr>)"
| "handleInputChange KIdFilter v prevState = Some (prevState\<lparr>idFilter := v, page := 1\<rparr>)"
| "handleInputChange KSortField v prevState =
     (if v = ''id'' then Some (prevState\<lparr>sortField := Some Id, page := 1\<rparr>)
      else if v = ''title'' then Some (prevState\<lparr>sortField := Some Title, page := 1\<rparr>)
      else None)"
| "handleInputChange KSortOrder v prevState =
     (if v = ''asc'' then Some (prevState\<lparr>sortOrder := Asc, page := 1\<rparr>)
      else if v = ''desc'' then Some (prevState\<lparr>sortOrder := Desc, page := 1\<rparr>)
      else None)"
| "handleInputChange KPage v prevState = Some (prevState\<lparr>page := 1\<rparr>)"

text \<open>
  The \<open>onChange\<close> of the id input (lines 180 to 185) removes every character that is
  not a digit or \<open>-\<close> before it calls the handler.
\<close>

definition isDigit :: "char \<Rightarrow> bool" where
  "isDigit c = (48 \<le> (of_char c :: nat) \<and> (of_char c :: nat) \<le> 57)"

definition onIdFilterChange :: "string \<Rightarrow> TableState \<Rightarrow> TableState option" where
  "onIdFilterChange v prevState =
     handleInputChange KIdFilter (filter (\<lambda>c. isDigit c \<or> c = CHR ''-'') v) prevState"

definition onSearchQueryChange :: "string \<Rightarrow> TableState \<Rightarrow> TableState option" where
  "onSearchQueryChange v prevState = handleInputChange KSearchQuery v prevState"

section \<open>The platform functions the filter effect calls\<close>

text \<open>
  \<open>String.prototype.toLowerCase\<close> on code units below 256: the upper-case letters
  are \<open>A\<close> to \<open>Z\<close> and 192 to 222 without the multiplication sign 215, each 32
  below its lower-case letter.
\<close>

definition lowerChar :: "char \<Rightarrow> char" where
  "lowerChar c =
     (let n = (of_char c :: nat)
      in if (65 \<le> n \<and> n \<le> 90) \<or> (192 \<le> n \<and> n \<le> 214) \<or> (216 \<le> n \<and> n \<le> 222)
         then char_of (n + 32) else c)"

definition toLowerCase :: "string \<Rightarrow> string" where
  "toLowerCase s = map lowerChar s"

text \<open>\<open>String.prototype.includes\<close>: the argument occurs as a contiguous run.\<close>

fun startsWith :: "string \<Rightarrow> string \<Rightarrow> bool" where
  "startsWith s [] = True"
| "startsWith [] (q # qs) = False"
| "startsWith (c # cs) (q # qs) = (c = q \<and> startsWith cs qs)"

fun includesStr :: "string \<Rightarrow> string \<Rightarrow> bool" where
  "includesStr [] q = startsWith [] q"
| "includesStr (c # cs) q = (startsWith (c # cs) q \<or> includesStr cs q)"

text \<open>
  \<open>String.prototype.split\<close> with a one-character separator: every occurrence
  separates, and the empty string gives one empty piece.
\<close>

fun split :: "char \<Rightarrow> string \<Rightarrow> string list" where
  "split sep [] = [[]]"
| "split sep (c # cs) =
     (if c = sep then [] # split sep cs
      else (case split sep cs of [] \<Rightarrow> [[c]] | p # ps \<Rightarrow> (c # p) # ps))"

text \<open>
  A number of the filter is an integer or \<open>NaN\<close>. \<open>parseInt(val, 10)\<close> skips leading
  white space (code units 9 to 13, 32 and 160 below 256), reads an optional sign and
  then the longest run of decimal digits; no digit gives \<open>NaN\<close>. The program clamps the
  result into 1 to 100 at once, so the rounding of long digit runs is not visible and
  the value is kept exact.
\<close>

datatype number = NaN | Num int

definition isWhiteSpace :: "char \<Rightarrow> bool" where
  "isWhiteSpace c =
     (let n = (of_char c :: nat) in (9 \<le> n \<and> n \<le> 13) \<or> n = 32 \<or> n = 160)"

definition digitValue :: "char \<Rightarrow> int" where
  "digitValue c = int (of_char c) - 48"

definition digitsValue :: "string \<Rightarrow> int" where
  "digitsValue ds = foldl (\<lambda>acc c. 10 * acc + digitValue c) 0 ds"

definition parseInt :: "string \<Rightarrow> number" where
  "parseInt val =
     (let S = dropWhile isWhiteSpace val;
          sign = (case S of [] \<Rightarrow> 1 | c # _ \<Rightarrow> if c = CHR ''-'' then - 1 else (1::int));
          S = (case S of [] \<Rightarrow> [] | c # cs \<Rightarrow> if c = CHR ''+'' \<or> c = CHR ''-'' then cs else S);
          Z = takeWhile isDigit S
      in if Z = [] then NaN else Num (sign * digitsValue Z))"

fun Math_min :: "int \<Rightarrow> number \<Rightarrow> number" where
  "Math_min a NaN = NaN"
| "Math_min a (Num b) = Num (min a b)"

fun Math_max :: "int \<Rightarrow> number \<Rightarrow> number" where
  "Math_max a NaN = NaN"
| "Math_max a (Num b) = Num (max a b)"

text \<open>
  The pattern \<open>[minId, maxId]\<close> reads the first two elements of the array; an element
  that is not there is \<open>undefined\<close>, here \<open>None\<close>. \<open>isNaN\<close> is true of \<open>undefined\<close>
  and of \<open>NaN\<close>.
\<close>

definition destructure2 :: "'a list \<Rightarrow> 'a option \<times> 'a option" where
  "destructure2 xs =
     (case xs of [] \<Rightarrow> (None, None) | [a] \<Rightarrow> (Some a, None) | a # b # _ \<Rightarrow> (Some a, Some b))"

fun isNaN :: "number option \<Rightarrow> bool" where
  "isNaN None = True"
| "isNaN (Some NaN) = True"
| "isNaN (Some (Num n)) = False"

text \<open>\<open>item.id >= minId\<close> and \<open>item.id <= maxId\<close>: false when the bound is no number.\<close>

fun geNum :: "int \<Rightarrow> number option \<Rightarrow> bool" where
  "geNum i (Some (Num n)) = (i \<ge> n)"
| "geNum i b = False"

fun leNum :: "int \<Rightarrow> number option \<Rightarrow> bool" where
  "leNum i (Some (Num n)) = (i \<le> n)"
| "leNum i b = False"

text \<open>The relation \<open><\<close> on strings compares code units from the left.\<close>

fun strLess :: "string \<Rightarrow> string \<Rightarrow> bool" where
  "strLess [] [] = False"
| "strLess [] (y # ys) = True"
| "strLess (x # xs) [] = False"
| "strLess (x # xs) (y # ys) =
     ((of_char x :: nat) < of_char y \<or> (x = y \<and> strLess xs ys))"

text \<open>
  \<open>Array.prototype.sort\<close> with a comparison function is stable: an element moves in
  front of another only when the function puts it strictly first. It is modelled as
  the insertion sort that inserts from the right.
\<close>

fun insertBy :: "('a \<Rightarrow> 'a \<Rightarrow> int) \<Rightarrow> 'a \<Rightarrow> 'a list \<Rightarrow> 'a list" where
  "insertBy cmp x [] = [x]"
| "insertBy cmp x (y # ys) = (if cmp x y \<le> 0 then x # y # ys else y # insertBy cmp x ys)"

definition sortBy :: "('a \<Rightarrow> 'a \<Rightarrow> int) \<Rightarrow> 'a list \<Rightarrow> 'a list" where
  "sortBy cmp xs = foldr (insertBy cmp) xs []"

section \<open>Arrays on a heap\<close>

text \<open>
  The arrays of records are objects: \<open>data\<close>, \<open>filteredData\<close> and the local
  \<open>filtered\<close> hold references to them. \<open>filter\<close> returns a new array; \<open>sort\<close> sorts
  the array it is called on and returns that same array.
\<close>

type_synonym ref = nat

record Heap =
  cells :: "ref \<Rightarrow> Post list"
  fresh :: ref

definition alloc :: "Post list \<Rightarrow> Heap \<Rightarrow> Heap \<times> ref" where
  "alloc xs h = (h\<lparr>cells := (cells h)(fresh h := xs), fresh := Suc (fresh h)\<rparr>, fresh h)"

definition array_filter :: "(Post \<Rightarrow> bool) \<Rightarrow> ref \<Rightarrow> Heap \<Rightarrow> Heap \<times> ref" where
  "array_filter P r h = alloc (filter P (cells h r)) h"

definition array_sort :: "(Post \<Rightarrow> Post \<Rightarrow> int) \<Rightarrow> ref \<Rightarrow> Heap \<Rightarrow> Heap \<times> ref" where
  "array_sort cmp r h = (h\<lparr>cells := (cells h)(r := sortBy cmp (cells h r))\<rparr>, r)"

section \<open>The filter effect, lines 82 to 114\<close>

definition matchesSearch :: "TableState \<Rightarrow> Post \<Rightarrow> bool" where
  "matchesSearch st item =
     (includesStr (toLowerCase (title item)) (toLowerCase (searchQuery st)) \<or>
      includesStr (toLowerCase (body item)) (toLowerCase (searchQuery st)))"

definition idBounds :: "TableState \<Rightarrow> number option \<times> number option" where
  "idBounds st =
     destructure2
       (map (\<lambda>val. Math_max 1 (Math_min 100 (parseInt val))) (split CHR ''-'' (idFilter st)))"

definition inIdRange :: "number option \<Rightarrow> number option \<Rightarrow> Post \<Rightarrow> bool" where
  "inIdRange minId maxId item = (geNum (id' item) minId \<and> leNum (id' item) maxId)"

definition compareFn :: "SortField \<Rightarrow> SortOrder \<Rightarrow> Post \<Rightarrow> Post \<Rightarrow> int" where
  "compareFn field ord a b =
     (case field of
        Id \<Rightarrow>
          if id' a < id' b then (if ord = Asc then - 1 else 1)
          else if id' a > id' b then (if ord = Asc then 1 else - 1)
          else 0
      | Title \<Rightarrow>
          if strLess (title a) (title b) then (if ord = Asc then - 1 else 1)
          else if strLess (title b) (title a) then (if ord = Asc then 1 else - 1)
          else 0)"

record Component =
  heap :: Heap
  data :: ref
  filteredData :: ref
  state :: TableState

definition filterEffect :: "Component \<Rightarrow> Component" where
  "filterEffect c =
     (let st = state c;
          filtered = data c;
          (h1, filtered) =
            (if searchQuery st \<noteq> [] then array_filter (matchesSearch st) filtered (heap c)
             else (heap c, filtered));
          (minId, maxId) = idBounds st;
          (h2, filtered) =
            (if \<not> isNaN minId \<and> \<not> isNaN maxId
             then array_filter (inIdRange minId maxId) filtered h1
             else (h1, filtered));
          (h3, filtered) =
            (case sortField st of
               None \<Rightarrow> (h2, filtered)
             | Some field \<Rightarrow> array_sort (compareFn field (sortOrder st)) filtered h2)
      in c\<lparr>heap := h3, filteredData := filtered\<rparr>)"

text \<open>Lines 64 to 66: a successful fetch stores one new array under both names.\<close>

definition fetchSuccess :: "Post list \<Rightarrow> Component \<Rightarrow> Component" where
  "fetchSuccess result c =
     (let (h, r) = alloc result (heap c) in c\<lparr>heap := h, data := r, filteredData := r\<rparr>)"

definition rawRecords :: "Component \<Rightarrow> Post list" where
  "rawRecords c = cells (heap c) (data c)"

definition filteredRecords :: "Component \<Rightarrow> Post list" where
  "filteredRecords c = cells (heap c) (filteredData c)"

section \<open>JSON text\<close>

text \<open>
  The value \<open>JSON.parse\<close> returns: \<open>null\<close>, a boolean, a number, a string, an array or
  an object with its properties in the order of their creation. A number literal is
  kept as the rational it denotes (the program rounds it to the nearest double, which
  changes no integer the component stores).
\<close>

datatype jsval =
    JNull
  | JBool bool
  | JNum rat
  | JStr string
  | JArr "jsval list"
  | JObj "(string \<times> jsval) list"

text \<open>
  \<open>SyntaxError\<close> is the exception \<open>JSON.parse\<close> throws. \<open>OutsideModel\<close> marks a text
  with an escape \<open>\uXXXX\<close> of a code unit above 255, about which the model says
  nothing. \<open>OutOfFuel\<close> is the end of the recursion bound of \<open>parseValue\<close>.
\<close>

datatype error = SyntaxError | OutsideModel | OutOfFuel

subsection \<open>\<open>JSON.stringify\<close> of a \<open>TableState\<close>\<close>

definition digitChar :: "nat \<Rightarrow> char" where
  "digitChar d = char_of (48 + d)"

definition hexDigit :: "nat \<Rightarrow> char" where
  "hexDigit n = (if n < 10 then digitChar n else char_of (87 + n))"

text \<open>
  \<open>QuoteJSONString\<close>: the quote, the backslash and the code units below 32 are escaped,
  every other code unit below 256 is copied.
\<close>

definition quoteChar :: "char \<Rightarrow> string" where
  "quoteChar c =
     (let n = (of_char c :: nat)
      in if n = 8 then [CHR 0x5C, CHR ''b'']
         else if n = 9 then [CHR 0x5C, CHR ''t'']
         else if n = 10 then [CHR 0x5C, CHR ''n'']
         else if n = 12 then [CHR 0x5C, CHR ''f'']
         else if n = 13 then [CHR 0x5C, CHR ''r'']
         else if n = 34 then [CHR 0x5C, CHR 0x22]
         else if n = 92 then [CHR 0x5C, CHR 0x5C]
         else if n < 32 then
           [CHR 0x5C, CHR ''u'', CHR ''0'', CHR ''0'', hexDigit (n div 16), hexDigit (n mod 16)]
         else [c])"

definition quoteJSONString :: "string \<Rightarrow> string" where
  "quoteJSONString s = CHR 0x22 # concat (map quoteChar s) @ [CHR 0x22]"

text \<open>\<open>Number::toString\<close> of an integer below \<open>10^21\<close> in size: its decimal digits.\<close>

fun natToString :: "nat \<Rightarrow> string" where
  "natToString n =
     (if n < 10 then [digitChar n] else natToString (n div 10) @ [digitChar (n mod 10)])"

definition numberToString :: "int \<Rightarrow> string" where
  "numberToString i =
     (if i < 0 then CHR ''-'' # natToString (nat (- i)) else natToString (nat i))"

definition sortFieldText :: "SortField option \<Rightarrow> string" where
  "sortFieldText f =
     (case f of
        None \<Rightarrow> ''null''
      | Some Id \<Rightarrow> quoteJSONString ''id''
      | Some Title \<Rightarrow> quoteJSONString ''title'')"

definition sortOrderText :: "SortOrder \<Rightarrow> string" where
  "sortOrderText ord =
     (case ord of Asc \<Rightarrow> quoteJSONString ''asc'' | Desc \<Rightarrow> quoteJSONString ''desc'')"

definition memberText :: "string \<Rightarrow> string \<Rightarrow> string" where
  "memberText key valueText = quoteJSONString key @ CHR '':'' # valueText"

text \<open>
  The five own properties in the order of the literal at lines 43 to 47, which the
  spreads of the handlers keep; no white space.
\<close>

definition JSON_stringify :: "TableState \<Rightarrow> string" where
  "JSON_stringify v =
     CHR ''{'' # memberText ''searchQuery'' (quoteJSONString (searchQuery v)) @
     CHR '','' # memberText ''idFilter'' (quoteJSONString (idFilter v)) @
     CHR '','' # memberText ''sortField'' (sortFieldText (sortField v)) @
     CHR '','' # memberText ''sortOrder'' (sortOrderText (sortOrder v)) @
     CHR '','' # memberText ''page'' (numberToString (page v)) @ ''}''"

text \<open>The object a \<open>TableState\<close> is at run time.\<close>

definition toJS :: "TableState \<Rightarrow> jsval" where
  "toJS v =
     JObj [(''searchQuery'', JStr (searchQuery v)),
           (''idFilter'', JStr (idFilter v)),
           (''sortField'',
              (case sortField v of None \<Rightarrow> JNull | Some Id \<Rightarrow> JStr ''id''
               | Some Title \<Rightarrow> JStr ''title'')),
           (''sortOrder'', (case sortOrder v of Asc \<Rightarrow> JStr ''asc'' | Desc \<Rightarrow> JStr ''desc'')),
           (''page'', JNum (of_int (page v)))]"

subsection \<open>\<open>JSON.parse\<close>\<close>

definition isJsonWs :: "char \<Rightarrow> bool" where
  "isJsonWs c = (let n = (of_char c :: nat) in n = 9 \<or> n = 10 \<or> n = 13 \<or> n = 32)"

definition skipWs :: "string \<Rightarrow> string" where
  "skipWs s = dropWhile isJsonWs s"

definition hexValue :: "char \<Rightarrow> nat option" where
  "hexValue c =
     (let n = (of_char c :: nat)
      in if 48 \<le> n \<and> n \<le> 57 then Some (n - 48)
         else if 97 \<le> n \<and> n \<le> 102 then Some (n - 87)
         else if 65 \<le> n \<and> n \<le> 70 then Some (n - 55)
         else None)"

definition unescape :: "char \<Rightarrow> char option" where
  "unescape e =
     (if e = CHR 0x22 then Some (CHR 0x22)
      else if e = CHR 0x5C then Some (CHR 0x5C)
      else if e = CHR ''/'' then Some (CHR ''/'')
      else if e = CHR ''b'' then Some (CHR 0x08)
      else if e = CHR ''f'' then Some (CHR 0x0C)
      else if e = CHR ''n'' then Some (CHR 0x0A)
      else if e = CHR ''r'' then Some (CHR 0x0D)
      else if e = CHR ''t'' then Some (CHR 0x09)
      else None)"

definition consChar :: "char \<Rightarrow> error + (string \<times> string) \<Rightarrow> error + (string \<times> string)" where
  "consChar c res = (case res of Inl e \<Rightarrow> Inl e | Inr (str, rest) \<Rightarrow> Inr (c # str, rest))"

text \<open>
  The characters of a string literal after its opening quote, up to the closing one;
  the result is the string and the text that follows the literal.
\<close>

fun parseStringBody :: "string \<Rightarrow> error + (string \<times> string)" where
  "parseStringBody [] = Inl SyntaxError"
| "parseStringBody (c # cs) =
     (if c = CHR 0x22 then Inr ([], cs)
      else if c = CHR 0x5C then
        (case cs of
           [] \<Rightarrow> Inl SyntaxError
         | e # r \<Rightarrow>
             if e = CHR ''u'' then
               (case r of
                  h1 # h2 # h3 # h4 # r' \<Rightarrow>
                    (case (hexValue h1, hexValue h2, hexValue h3, hexValue h4) of
                       (Some a, Some b, Some c', Some d) \<Rightarrow>
                         (let n = ((a * 16 + b) * 16 + c') * 16 + d
                          in if n < 256 then consChar (char_of n) (parseStringBody r')
                             else Inl OutsideModel)
                     | _ \<Rightarrow> Inl SyntaxError)
                | _ \<Rightarrow> Inl SyntaxError)
             else
               (case unescape e of
                  None \<Rightarrow> Inl SyntaxError
                | Some ch \<Rightarrow> consChar ch (parseStringBody r)))
      else if (of_char c :: nat) < 32 then Inl SyntaxError
      else consChar c (parseStringBody cs))"

text \<open>
  A number literal: an optional minus, \<open>0\<close> or a run of digits that does not start
  with \<open>0\<close>, an optional fraction and an optional exponent.
\<close>

definition parseIntPart :: "string \<Rightarrow> error + (string \<times> string)" where
  "parseIntPart s =
     (case s of
        [] \<Rightarrow> Inl SyntaxError
      | c # cs \<Rightarrow>
          if c = CHR ''0'' then Inr ([c], cs)
          else if isDigit c then Inr (takeWhile isDigit s, dropWhile isDigit s)
          else Inl SyntaxError)"

definition parseFraction :: "string \<Rightarrow> error + (string \<times> string)" where
  "parseFraction s =
     (case s of
        [] \<Rightarrow> Inr ([], s)
      | c # cs \<Rightarrow>
          if c = CHR ''.'' then
            (if takeWhile isDigit cs = [] then Inl SyntaxError
             else Inr (takeWhile isDigit cs, dropWhile isDigit cs))
          else Inr ([], s))"

definition parseExponent :: "string \<Rightarrow> error + (int \<times> string)" where
  "parseExponent s =
     (case s of
        [] \<Rightarrow> Inr (0, s)
      | c # cs \<Rightarrow>
          if c = CHR ''e'' \<or> c = CHR ''E'' then
            (let (sign, ds) =
                   (case cs of
                      [] \<Rightarrow> (1, cs)
                    | d # r \<Rightarrow>
                        if d = CHR ''+'' then (1, r)
                        else if d = CHR ''-'' then (- 1, r)
                        else (1::int, cs))
             in if takeWhile isDigit ds = [] then Inl SyntaxError
                else Inr (sign * digitsValue (takeWhile isDigit ds), dropWhile isDigit ds))
          else Inr (0, s))"

definition scale10 :: "rat \<Rightarrow> int \<Rightarrow> rat" where
  "scale10 m ex = (if 0 \<le> ex then m * 10 ^ nat ex else m / 10 ^ nat (- ex))"

definition parseNumber :: "string \<Rightarrow> error + (rat \<times> string)" where
  "parseNumber s =
     (let (sign, s1) =
            (case s of
               [] \<Rightarrow> (1, s)
             | c # cs \<Rightarrow> if c = CHR ''-'' then (- 1, cs) else (1::int, s))
      in case parseIntPart s1 of
           Inl e \<Rightarrow> Inl e
         | Inr (ds, s2) \<Rightarrow>
             (case parseFraction s2 of
                Inl e \<Rightarrow> Inl e
              | Inr (fs, s3) \<Rightarrow>
                  (case parseExponent s3 of
                     Inl e \<Rightarrow> Inl e
                   | Inr (ex, s4) \<Rightarrow>
                       Inr (scale10 (of_int (sign * digitsValue (ds @ fs)))
                              (ex - int (length fs)), s4))))"

text \<open>
  A property that is defined twice keeps its first place and takes the last value.
\<close>

fun setProperty :: "string \<Rightarrow> 'v \<Rightarrow> (string \<times> 'v) list \<Rightarrow> (string \<times> 'v) list" where
  "setProperty k v [] = [(k, v)]"
| "setProperty k v ((k', v') # ps) =
     (if k = k' then (k, v) # ps else (k', v') # setProperty k v ps)"

definition buildObject :: "(string \<times> 'v) list \<Rightarrow> (string \<times> 'v) list" where
  "buildObject ms = foldl (\<lambda>obj (k, v). setProperty k v obj) [] ms"

text \<open>
  The recursive descent. The first argument bounds the depth of the recursion, so
  that the functions are total; \<open>JSON_parse\<close> starts with more than the text can use.
  \<open>parseElements\<close> reads the elements of an array after its bracket up to the closing
  bracket, \<open>parseMembers\<close> the members of an object after its brace up to the closing
  brace; both are entered only when there is at least one.
\<close>

fun parseValue :: "nat \<Rightarrow> string \<Rightarrow> error + (jsval \<times> string)"
  and parseElements :: "nat \<Rightarrow> string \<Rightarrow> error + (jsval list \<times> string)"
  and parseMembers :: "nat \<Rightarrow> string \<Rightarrow> error + ((string \<times> jsval) list \<times> string)"
where
  "parseValue 0 s = Inl OutOfFuel"
| "parseValue (Suc n) s =
     (case skipWs s of
        [] \<Rightarrow> Inl SyntaxError
      | c # cs \<Rightarrow>
          if c = CHR ''{'' then
            (case skipWs cs of
               [] \<Rightarrow> Inl SyntaxError
             | d # r \<Rightarrow>
                 if d = CHR ''}'' then Inr (JObj [], r)
                 else
                   (case parseMembers n (d # r) of
                      Inl e \<Rightarrow> Inl e
                    | Inr (ms, r') \<Rightarrow> Inr (JObj (buildObject ms), r')))
          else if c = CHR ''['' then
            (case skipWs cs of
               [] \<Rightarrow> Inl SyntaxError
             | d # r \<Rightarrow>
                 if d = CHR '']'' then Inr (JArr [], r)
                 else
                   (case parseElements n (d # r) of
                      Inl e \<Rightarrow> Inl e
                    | Inr (vs, r') \<Rightarrow> Inr (JArr vs, r')))
          else if c = CHR 0x22 then
            (case parseStringBody cs of
               Inl e \<Rightarrow> Inl e
             | Inr (str, r) \<Rightarrow> Inr (JStr str, r))
          else if c = CHR ''-'' \<or> isDigit c then
            (case parseNumber (c # cs) of
               Inl e \<Rightarrow> Inl e
             | Inr (q, r) \<Rightarrow> Inr (JNum q, r))
          else if startsWith (c # cs) ''true'' then Inr (JBool True, drop 4 (c # cs))
          else if startsWith (c # cs) ''false'' then Inr (JBool False, drop 5 (c # cs))
          else if startsWith (c # cs) ''null'' then Inr (JNull, drop 4 (c # cs))
          else Inl SyntaxError)"
| "parseElements 0 s = Inl OutOfFuel"
| "parseElements (Suc n) s =
     (case parseValue n s of
        Inl e \<Rightarrow> Inl e
      | Inr (v, r) \<Rightarrow>
          (case skipWs r of
             [] \<Rightarrow> Inl SyntaxError
           | d # r' \<Rightarrow>
               if d = CHR '','' then
                 (case parseElements n r' of
                    Inl e \<Rightarrow> Inl e
                  | Inr (vs, r'') \<Rightarrow> Inr (v # vs, r''))
               else if d = CHR '']'' then Inr ([v], r')
               else Inl SyntaxError))"
| "parseMembers 0 s = Inl OutOfFuel"
| "parseMembers (Suc n) s =
     (case skipWs s of
        [] \<Rightarrow> Inl SyntaxError
      | q # cs \<Rightarrow>
          if q = CHR 0x22 then
            (case parseStringBody cs of
               Inl e \<Rightarrow> Inl e
             | Inr (k, r) \<Rightarrow>
                 (case skipWs r of
                    [] \<Rightarrow> Inl SyntaxError
                  | d # r' \<Rightarrow>
                      if d = CHR '':'' then
                        (case parseValue n r' of
                           Inl e \<Rightarrow> Inl e
                         | Inr (v, r'') \<Rightarrow>
                             (case skipWs r'' of
                                [] \<Rightarrow> Inl SyntaxError
                              | d' # r3 \<Rightarrow>
                                  if d' = CHR '','' then
                                    (case parseMembers n r3 of
                                       Inl e \<Rightarrow> Inl e
                                     | Inr (ms, r4) \<Rightarrow> Inr ((k, v) # ms, r4))
                                  else if d' = CHR ''}'' then Inr ([(k, v)], r3)
                                  else Inl SyntaxError))
                      else Inl SyntaxError))
          else Inl SyntaxError)"

definition JSON_parse :: "string \<Rightarrow> error + jsval" where
  "JSON_parse text =
     (case parseValue (2 * length text + 1) text of
        Inl e \<Rightarrow> Inl e
      | Inr (v, rest) \<Rightarrow> if skipWs rest = [] then Inr v else Inl SyntaxError)"

section \<open>The durable store, lines 23 to 33\<close>

type_synonym Storage = "string \<rightharpoonup> string"

definition setItem :: "string \<Rightarrow> string \<Rightarrow> Storage \<Rightarrow> Storage" where
  "setItem key v ls = ls(key \<mapsto> v)"

definition getItem :: "string \<Rightarrow> Storage \<Rightarrow> string option" where
  "getItem key ls = ls key"

definition saveToLocalStorage :: "string \<Rightarrow> TableState \<Rightarrow> Storage \<Rightarrow> Storage" where
  "saveToLocalStorage key v ls = setItem key (JSON_stringify v) ls"

text \<open>
  \<open>storedValue ? JSON.parse(storedValue) : defaultValue\<close>: \<open>null\<close> and the empty string
  are the falsy values of \<open>getItem\<close>. The type \<open>TableState\<close> of the result is erased at
  run time, so the result is whatever value the text denotes; an exception of
  \<open>JSON.parse\<close> leaves the function, as nothing catches it.
\<close>

definition loadFromLocalStorage :: "string \<Rightarrow> TableState \<Rightarrow> Storage \<Rightarrow> error + jsval" where
  "loadFromLocalStorage key defaultValue ls =
     (let storedValue = getItem key ls
      in case storedValue of
           None \<Rightarrow> Inr (toJS defaultValue)
         | Some text \<Rightarrow> if text \<noteq> [] then JSON_parse text else Inr (toJS defaultValue))"

section \<open>The component at its first render, and the records of the scenarios\<close>

text \<open>
  Lines 36 and 37: \<open>data\<close> and \<open>filteredData\<close> start as two empty arrays of their
  own; the state is the one that was loaded.
\<close>

definition initialComponent :: "TableState \<Rightarrow> Component" where
  "initialComponent st =
     \<lparr>heap = \<lparr>cells = (\<lambda>r. []), fresh = 2\<rparr>, data = 0, filteredData = 1, state = st\<rparr>"

definition scenarioRecords :: "Post list" where
  "scenarioRecords =
     [\<lparr>id' = 1, title = ''Alpha'', body = ''x''\<rparr>,
      \<lparr>id' = 2, title = ''Beta'', body = ''y''\<rparr>,
      \<lparr>id' = 3, title = ''Gamma'', body = ''z''\<rparr>]"

text \<open>The component after the fetch has delivered \<open>records\<close>, in state \<open>st\<close>.\<close>

definition fetched :: "Post list \<Rightarrow> TableState \<Rightarrow> Component" where
  "fetched records st = fetchSuccess records (initialComponent st)"

text \<open>
  The list the first step and the last step of the effect compute, read off the
  arrays: the search filter, and the sort.
\<close>

definition searchStep :: "TableState \<Rightarrow> Post list \<Rightarrow> Post list" where
  "searchStep st xs = (if searchQuery st \<noteq> [] then filter (matchesSearch st) xs else xs)"

definition sortStep :: "TableState \<Rightarrow> Post list \<Rightarrow> Post list" where
  "sortStep st xs =
     (case sortField st of None \<Rightarrow> xs | Some field \<Rightarrow> sortBy (compareFn field (sortOrder st)) xs)"

section \<open>The id filter in the words of the specification\<close>

text \<open>
  Section 4.2 of the specification parses \<open>idFilter\<close> by splitting on the first \<open>-\<close>,
  parses each half as an integer and clamps it into 1 to 100; when both halves parse
  it keeps the records whose id is in the range, and otherwise it keeps all. The
  definitions below follow these words, not the source: they are what the effect is
  compared with. A half is parsed with \<open>parseInt\<close>, as in the program.
\<close>

definition specHalves :: "string \<Rightarrow> (string \<times> string) option" where
  "specHalves s =
     (if CHR ''-'' \<in> set s
      then Some (takeWhile (\<lambda>c. c \<noteq> CHR ''-'') s, tl (dropWhile (\<lambda>c. c \<noteq> CHR ''-'') s))
      else None)"

definition specIdBounds :: "string \<Rightarrow> (int \<times> int) option" where
  "specIdBounds s =
     (case specHalves s of
        None \<Rightarrow> None
      | Some (h0, h1) \<Rightarrow>
          (case parseInt h0 of
             NaN \<Rightarrow> None
           | Num a \<Rightarrow>
               (case parseInt h1 of
                  NaN \<Rightarrow> None
                | Num b \<Rightarrow> Some (max 1 (min 100 a), max 1 (min 100 b)))))"

definition specIdFilter :: "string \<Rightarrow> Post list \<Rightarrow> Post list" where
  "specIdFilter s xs =
     (case specIdBounds s of
        None \<Rightarrow> xs
      | Some (lo, hi) \<Rightarrow> filter (\<lambda>item. lo \<le> id' item \<and> id' item \<le> hi) xs)"

text \<open>
  The second half, the text after the first \<open>-\<close>, is signed when its first character
  after white space is a \<open>-\<close>, as in \<open>1--3\<close>.
\<close>

definition secondHalfSigned :: "string \<Rightarrow> bool" where
  "secondHalfSigned s =
     (case specHalves s of
        None \<Rightarrow> False
      | Some (h0, h1) \<Rightarrow>
          (case dropWhile isWhiteSpace h1 of [] \<Rightarrow> False | c # _ \<Rightarrow> c = CHR ''-''))"

section \<open>Pagination and the handlers\<close>

lemma pageCount_div: "pageCount fd = (int (length fd) + 7) div 8"
proof -
  have "\<lceil>(of_int (int (length fd)) :: rat) / of_int 8\<rceil> = - ((- int (length fd)) div 8)"
    by (simp only: ceiling_divide_eq_div)
  also have "\<dots> = (int (length fd) + 7) div 8"
    by linarith
  finally show ?thesis
    by (simp add: pageCount_def itemsPerPage_def)
qed

lemma pageCount_Nil: "pageCount [] = 0"
  by (simp add: pageCount_div)

lemma pageCount_pos: "fd \<noteq> [] \<Longrightarrow> 1 \<le> pageCount fd"
proof -
  assume "fd \<noteq> []"
  then have "1 \<le> int (length fd)"
    by (cases fd) simp_all
  then show ?thesis
    unfolding pageCount_div by linarith
qed

text \<open>
  C9. \<open>handleNextPage\<close> adds exactly 1 to \<open>page\<close> when \<open>page\<close> is below the page count of
  the current filtered data and returns the state as it is otherwise;
  \<open>handlePrevPage\<close> subtracts exactly 1 when \<open>page\<close> is above 1 and returns the state as
  it is otherwise. No other field changes. For a page of at least 1 the guard of
  \<open>handleNextPage\<close> is the same whether the page count is taken as the program computes
  it or as at least 1.
\<close>

theorem C9_next_prev_page:
  "(page st < pageCount fd \<longrightarrow>
      handleNextPage fd st =
        \<lparr>searchQuery = searchQuery st, idFilter = idFilter st, sortField = sortField st,
         sortOrder = sortOrder st, page = page st + 1\<rparr>) \<and>
   (\<not> page st < pageCount fd \<longrightarrow> handleNextPage fd st = st) \<and>
   (page st > 1 \<longrightarrow>
      handlePrevPage st =
        \<lparr>searchQuery = searchQuery st, idFilter = idFilter st, sortField = sortField st,
         sortOrder = sortOrder st, page = page st - 1\<rparr>) \<and>
   (\<not> page st > 1 \<longrightarrow> handlePrevPage st = st) \<and>
   (1 \<le> page st \<longrightarrow> (page st < pageCount fd) = (page st < max 1 (pageCount fd)))"
  by (cases st) (auto simp add: handleNextPage_def handlePrevPage_def)

theorem C9_next_prev_page_witness:
  "handleNextPage scenarioRecords defaultState = defaultState \<and>
   handleNextPage (scenarioRecords @ scenarioRecords @ scenarioRecords) defaultState =
     defaultState\<lparr>page := 2\<rparr> \<and>
   handlePrevPage (defaultState\<lparr>page := 2\<rparr>) = defaultState \<and>
   handlePrevPage defaultState = defaultState \<and>
   ((1::int) < pageCount (scenarioRecords @ scenarioRecords @ scenarioRecords)) =
     (1 < max 1 (pageCount (scenarioRecords @ scenarioRecords @ scenarioRecords)))"
  using C9_next_prev_page [of defaultState scenarioRecords]
    C9_next_prev_page [of defaultState "scenarioRecords @ scenarioRecords @ scenarioRecords"]
    C9_next_prev_page [of "defaultState\<lparr>page := 2\<rparr>" scenarioRecords]
  by (simp add: pageCount_div scenarioRecords_def defaultState_def)

text \<open>
  C8. With the key \<open>searchQuery\<close> or \<open>idFilter\<close>, \<open>handleInputChange\<close> puts the new text
  into that field, sets \<open>page\<close> to 1 and keeps the three other fields, for every prior
  state and every text.
\<close>

theorem C8_input_change_resets_page:
  "handleInputChange KSearchQuery v st =
     Some \<lparr>searchQuery = v, idFilter = idFilter st, sortField = sortField st,
           sortOrder = sortOrder st, page = 1\<rparr> \<and>
   handleInputChange KIdFilter v st =
     Some \<lparr>searchQuery = searchQuery st, idFilter = v, sortField = sortField st,
           sortOrder = sortOrder st, page = 1\<rparr>"
  by (cases st) simp

text \<open>
  The id input hands the handler its text without the characters that are neither a
  digit nor \<open>-\<close>; the search input hands over its text as it is.
\<close>

lemma onIdFilterChange_sanitised:
  "onIdFilterChange v st =
     Some (st\<lparr>idFilter := filter (\<lambda>c. isDigit c \<or> c = CHR ''-'') v, page := 1\<rparr>)"
  by (simp add: onIdFilterChange_def)

lemma onSearchQueryChange_plain:
  "onSearchQueryChange v st = Some (st\<lparr>searchQuery := v, page := 1\<rparr>)"
  by (simp add: onSearchQueryChange_def)

text \<open>
  C7, as amended. \<open>handleSort\<close> flips \<open>sortOrder\<close> when the prior \<open>sortField\<close> is the
  field, and otherwise sets \<open>sortField\<close> to the field with ascending order; \<open>page\<close>, and
  the two filter texts, stay. Two calls with the same field give back the prior order
  when the prior \<open>sortField\<close> was that field (ascending, if it was ascending); when
  the prior \<open>sortField\<close> was another one or none, the first call gives ascending and
  the second descending.
\<close>

theorem C7_toggle_sort:
  "(sortField st = Some field \<and> sortOrder st = Asc \<longrightarrow>
      handleSort field st = st\<lparr>sortOrder := Desc\<rparr>) \<and>
   (sortField st = Some field \<and> sortOrder st = Desc \<longrightarrow>
      handleSort field st = st\<lparr>sortOrder := Asc\<rparr>) \<and>
   (sortField st \<noteq> Some field \<longrightarrow>
      handleSort field st = st\<lparr>sortField := Some field, sortOrder := Asc\<rparr>) \<and>
   page (handleSort field st) = page st \<and>
   searchQuery (handleSort field st) = searchQuery st \<and>
   idFilter (handleSort field st) = idFilter st \<and>
   (sortField st = Some field \<longrightarrow>
      sortOrder (handleSort field (handleSort field st)) = sortOrder st) \<and>
   (sortField st \<noteq> Some field \<longrightarrow>
      sortOrder (handleSort field (handleSort field st)) = Desc)"
  by (cases st; cases "sortOrder st") (auto simp add: handleSort_def)

theorem C7_toggle_sort_witness:
  "handleSort Id (defaultState\<lparr>sortField := Some Id\<rparr>) =
     defaultState\<lparr>sortField := Some Id, sortOrder := Desc\<rparr> \<and>
   handleSort Id (defaultState\<lparr>sortField := Some Id, sortOrder := Desc\<rparr>) =
     defaultState\<lparr>sortField := Some Id, sortOrder := Asc\<rparr> \<and>
   handleSort Title (defaultState\<lparr>sortField := Some Id, sortOrder := Desc\<rparr>) =
     defaultState\<lparr>sortField := Some Title, sortOrder := Asc\<rparr> \<and>
   sortOrder (handleSort Id (handleSort Id (defaultState\<lparr>sortField := Some Id\<rparr>))) = Asc \<and>
   sortOrder (handleSort Id (handleSort Id defaultState)) = Desc"
  using C7_toggle_sort [of "defaultState\<lparr>sortField := Some Id\<rparr>" Id]
    C7_toggle_sort [of "defaultState\<lparr>sortField := Some Id, sortOrder := Desc\<rparr>" Id]
    C7_toggle_sort [of "defaultState\<lparr>sortField := Some Id, sortOrder := Desc\<rparr>" Title]
    C7_toggle_sort [of defaultState Id]
  by (simp add: defaultState_def)

text \<open>
  The claim C7 as it is written fails at the state the component starts in: no sort
  field, ascending order. Two clicks on the \<open>ID\<close> header leave the order descending.
\<close>

theorem C7_toggle_twice_counterexample:
  "sortOrder defaultState = Asc \<and>
   sortOrder (handleSort Id (handleSort Id defaultState)) \<noteq> Asc"
  by (simp add: handleSort_def defaultState_def)

text \<open>
  C2, as amended. The page count the program computes is the ceiling of the number of
  filtered records over 8: the least number of pages of 8 that hold them. It is at
  least 1, and then equal to the greater of 1 and that ceiling, exactly when there is
  a filtered record; for no filtered record it is 0.
\<close>

theorem C2_page_count:
  "int (length fd) \<le> pageCount fd * itemsPerPage \<and>
   (pageCount fd - 1) * itemsPerPage < int (length fd) \<and>
   (fd \<noteq> [] \<longrightarrow>
      1 \<le> pageCount fd \<and>
      pageCount fd = max 1 \<lceil>(of_nat (length fd) :: rat) / of_int itemsPerPage\<rceil>) \<and>
   (fd = [] \<longrightarrow> pageCount fd = 0)"
proof -
  have "int (length fd) \<le> pageCount fd * itemsPerPage"
    unfolding pageCount_div itemsPerPage_def by presburger
  moreover have "(pageCount fd - 1) * itemsPerPage < int (length fd)"
    unfolding pageCount_div itemsPerPage_def by presburger
  moreover have "fd \<noteq> [] \<longrightarrow> 1 \<le> pageCount fd"
    by (simp add: pageCount_pos)
  moreover have
    "1 \<le> pageCount fd \<longrightarrow>
       pageCount fd = max 1 \<lceil>(of_nat (length fd) :: rat) / of_int itemsPerPage\<rceil>"
    by (simp add: pageCount_def)
  moreover have "fd = [] \<longrightarrow> pageCount fd = 0"
    by (simp add: pageCount_Nil)
  ultimately show ?thesis
    by blast
qed

theorem C2_page_count_witness:
  "pageCount scenarioRecords = 1 \<and> pageCount ([] :: Post list) = 0"
  using C2_page_count [of scenarioRecords] C2_page_count [of "[]"]
  by (simp add: pageCount_div scenarioRecords_def)

section \<open>The filter effect\<close>



lemma filterEffect_contents:
  "filteredRecords (filterEffect c) =
     sortStep (state c)
       (let (minId, maxId) = idBounds (state c);
            xs = searchStep (state c) (rawRecords c)
        in if \<not> isNaN minId \<and> \<not> isNaN maxId then filter (inIdRange minId maxId) xs else xs)"
  by (cases "idBounds (state c)")
     (simp add: filterEffect_def filteredRecords_def rawRecords_def searchStep_def sortStep_def
        array_filter_def array_sort_def alloc_def Let_def split: option.split)

lemma idBounds_alt:
  "idBounds st =
     destructure2
       (map (\<lambda>n. Math_max 1 (Math_min 100 n)) (map parseInt (split CHR ''-'' (idFilter st))))"
  by (simp add: idBounds_def comp_def)

lemma idBounds_parsed:
  assumes "map parseInt (split CHR ''-'' (idFilter st)) = Num a # Num b # rest"
  shows "idBounds st = (Some (Num (max 1 (min 100 a))), Some (Num (max 1 (min 100 b))))"
  by (simp add: idBounds_alt assms destructure2_def)

lemma idBounds_not_parsed:
  assumes "\<nexists>a b rest. map parseInt (split CHR ''-'' (idFilter st)) = Num a # Num b # rest"
  shows "isNaN (fst (idBounds st)) \<or> isNaN (snd (idBounds st))"
proof (cases "map parseInt (split CHR ''-'' (idFilter st))")
  case Nil
  then show ?thesis
    by (simp add: idBounds_alt destructure2_def)
next
  case (Cons x xs)
  note outer = Cons
  show ?thesis
  proof (cases xs)
    case Nil
    with outer show ?thesis
      by (simp add: idBounds_alt destructure2_def)
  next
    case (Cons y ys)
    with outer assms have "x = NaN \<or> y = NaN"
      by (cases x; cases y) auto
    with outer Cons show ?thesis
      by (auto simp add: idBounds_alt destructure2_def)
  qed
qed




subsection \<open>The pieces the program takes and the halves of the specification\<close>

text \<open>
  The program splits on every \<open>-\<close> and takes the first two pieces. The first piece
  is the first half. The second piece is the second half up to its first \<open>-\<close>, and
  \<open>parseInt\<close> reads the same number from both unless the second half is signed: then
  the second piece is empty or white space, and is no number.
\<close>

lemma split_no_sep: "sep \<notin> set s \<Longrightarrow> split sep s = [s]"
  by (induction s) auto

lemma split_first:
  "sep \<in> set s \<Longrightarrow>
   split sep s = takeWhile (\<lambda>c. c \<noteq> sep) s # split sep (tl (dropWhile (\<lambda>c. c \<noteq> sep) s))"
  by (induction s) auto

lemma split_hd: "\<exists>ps. split sep s = takeWhile (\<lambda>c. c \<noteq> sep) s # ps"
  by (induction s) auto

lemma ws_not_minus: "isWhiteSpace c \<Longrightarrow> c \<noteq> CHR ''-''"
  by (auto simp add: isWhiteSpace_def)

lemma digit_not_minus: "isDigit c \<Longrightarrow> c \<noteq> CHR ''-''"
  by (auto simp add: isDigit_def)

lemma dropWhile_ws_takeWhile:
  "dropWhile isWhiteSpace (takeWhile (\<lambda>c. c \<noteq> CHR ''-'') h) =
   takeWhile (\<lambda>c. c \<noteq> CHR ''-'') (dropWhile isWhiteSpace h)"
  by (induction h) (auto dest: ws_not_minus)

lemma takeWhile_digit_takeWhile:
  "takeWhile isDigit (takeWhile (\<lambda>c. c \<noteq> CHR ''-'') h) = takeWhile isDigit h"
  by (induction h) (auto dest: digit_not_minus)

lemma parseInt_unsigned_piece:
  assumes "case dropWhile isWhiteSpace h of [] \<Rightarrow> True | c # _ \<Rightarrow> c \<noteq> CHR ''-''"
  shows "parseInt (takeWhile (\<lambda>c. c \<noteq> CHR ''-'') h) = parseInt h"
proof (cases "dropWhile isWhiteSpace h")
  case Nil
  show ?thesis
    by (simp only: parseInt_def dropWhile_ws_takeWhile Nil) simp
next
  case (Cons c cs)
  with assms have "c \<noteq> CHR ''-''"
    by simp
  have tw: "takeWhile isDigit (c # takeWhile (\<lambda>c. c \<noteq> CHR ''-'') cs) = takeWhile isDigit (c # cs)"
    using takeWhile_digit_takeWhile [of "c # cs"] \<open>c \<noteq> CHR ''-''\<close> by simp
  show ?thesis
    using \<open>c \<noteq> CHR ''-''\<close> tw
    by (simp only: parseInt_def dropWhile_ws_takeWhile Cons)
       (simp add: takeWhile_digit_takeWhile Let_def)
qed

lemma parseInt_signed_piece:
  assumes "dropWhile isWhiteSpace h = CHR ''-'' # cs"
  shows "parseInt (takeWhile (\<lambda>c. c \<noteq> CHR ''-'') h) = NaN"
  by (simp only: parseInt_def dropWhile_ws_takeWhile assms) simp


lemma filterEffect_id_parsed:
  assumes "map parseInt (split CHR ''-'' (idFilter (state c))) = Num a # Num b # rest"
  shows "filteredRecords (filterEffect c) =
     sortStep (state c)
       (filter (\<lambda>item. max 1 (min 100 a) \<le> id' item \<and> id' item \<le> max 1 (min 100 b))
          (searchStep (state c) (rawRecords c)))"
proof -
  have "inIdRange (Some (Num (max 1 (min 100 a)))) (Some (Num (max 1 (min 100 b)))) =
        (\<lambda>item. max 1 (min 100 a) \<le> id' item \<and> id' item \<le> max 1 (min 100 b))"
    by (rule ext) (simp add: inIdRange_def)
  then show ?thesis
    by (simp add: filterEffect_contents idBounds_parsed [OF assms])
qed

lemma filterEffect_id_skipped:
  assumes "\<nexists>a b rest. map parseInt (split CHR ''-'' (idFilter (state c))) = Num a # Num b # rest"
  shows "filteredRecords (filterEffect c) = sortStep (state c) (searchStep (state c) (rawRecords c))"
proof -
  from assms have "isNaN (fst (idBounds (state c))) \<or> isNaN (snd (idBounds (state c)))"
    by (rule idBounds_not_parsed)
  then show ?thesis
    by (cases "idBounds (state c)") (auto simp add: filterEffect_contents)
qed

lemma pieces_of_halves:
  assumes "specHalves s = Some (h0, h1)"
  shows "\<exists>ps. split CHR ''-'' s = h0 # takeWhile (\<lambda>c. c \<noteq> CHR ''-'') h1 # ps"
proof -
  from assms have mem: "CHR ''-'' \<in> set s"
    and h0: "h0 = takeWhile (\<lambda>c. c \<noteq> CHR ''-'') s"
    and h1: "h1 = tl (dropWhile (\<lambda>c. c \<noteq> CHR ''-'') s)"
    by (auto simp add: specHalves_def split: if_splits)
  obtain ps where "split CHR ''-'' h1 = takeWhile (\<lambda>c. c \<noteq> CHR ''-'') h1 # ps"
    using split_hd [of "CHR ''-''" h1] by blast
  then show ?thesis
    using split_first [OF mem] h0 h1 by simp
qed

lemma filterEffect_signed_half:
  assumes "secondHalfSigned (idFilter (state c))"
  shows "filteredRecords (filterEffect c) = sortStep (state c) (searchStep (state c) (rawRecords c))"
proof -
  obtain hs where some: "specHalves (idFilter (state c)) = Some hs"
    using assms by (cases "specHalves (idFilter (state c))") (simp_all add: secondHalfSigned_def)
  obtain h0 h1 where hs: "hs = (h0, h1)"
    by (cases hs)
  with some have halves: "specHalves (idFilter (state c)) = Some (h0, h1)"
    by simp
  obtain cs where signed: "dropWhile isWhiteSpace h1 = CHR ''-'' # cs"
  proof (cases "dropWhile isWhiteSpace h1")
    case Nil
    with assms show ?thesis
      by (simp add: secondHalfSigned_def halves Nil)
  next
    case (Cons d ds)
    with assms have "d = CHR ''-''"
      by (simp add: secondHalfSigned_def halves Cons)
    with Cons that show ?thesis
      by simp
  qed
  obtain ps where
    "split CHR ''-'' (idFilter (state c)) = h0 # takeWhile (\<lambda>c. c \<noteq> CHR ''-'') h1 # ps"
    using pieces_of_halves [OF halves] by blast
  then have "map parseInt (split CHR ''-'' (idFilter (state c))) =
      parseInt h0 # NaN # map parseInt ps"
    by (simp add: parseInt_signed_piece [OF signed])
  then have "\<nexists>a b rest. map parseInt (split CHR ''-'' (idFilter (state c))) = Num a # Num b # rest"
    by simp
  then show ?thesis
    by (rule filterEffect_id_skipped)
qed

lemma filterEffect_unsigned_half:
  assumes "\<not> secondHalfSigned (idFilter (state c))"
  shows "filteredRecords (filterEffect c) =
     sortStep (state c) (specIdFilter (idFilter (state c)) (searchStep (state c) (rawRecords c)))"
proof (cases "specHalves (idFilter (state c))")
  case None
  then have "CHR ''-'' \<notin> set (idFilter (state c))"
    by (auto simp add: specHalves_def split: if_splits)
  then have "split CHR ''-'' (idFilter (state c)) = [idFilter (state c)]"
    by (rule split_no_sep)
  then have "\<nexists>a b rest. map parseInt (split CHR ''-'' (idFilter (state c))) = Num a # Num b # rest"
    by simp
  then have "filteredRecords (filterEffect c) =
      sortStep (state c) (searchStep (state c) (rawRecords c))"
    by (rule filterEffect_id_skipped)
  with None show ?thesis
    by (simp add: specIdFilter_def specIdBounds_def)
next
  case (Some hs)
  obtain h0 h1 where hs: "hs = (h0, h1)"
    by (cases hs)
  with Some have halves: "specHalves (idFilter (state c)) = Some (h0, h1)"
    by simp
  have unsigned:
    "case dropWhile isWhiteSpace h1 of [] \<Rightarrow> True | c # _ \<Rightarrow> c \<noteq> CHR ''-''"
  proof (cases "dropWhile isWhiteSpace h1")
    case Nil
    show ?thesis
      by (simp add: Nil)
  next
    case (Cons d ds)
    with assms show ?thesis
      by (simp add: secondHalfSigned_def halves Cons)
  qed
  obtain ps where
    "split CHR ''-'' (idFilter (state c)) = h0 # takeWhile (\<lambda>c. c \<noteq> CHR ''-'') h1 # ps"
    using pieces_of_halves [OF halves] by blast
  then have pieces: "map parseInt (split CHR ''-'' (idFilter (state c))) =
      parseInt h0 # parseInt h1 # map parseInt ps"
    by (simp add: parseInt_unsigned_piece [OF unsigned])
  show ?thesis
  proof (cases "parseInt h0")
    case NaN
    with pieces have
      "\<nexists>a b rest. map parseInt (split CHR ''-'' (idFilter (state c))) = Num a # Num b # rest"
      by simp
    then have "filteredRecords (filterEffect c) =
        sortStep (state c) (searchStep (state c) (rawRecords c))"
      by (rule filterEffect_id_skipped)
    with NaN halves show ?thesis
      by (simp add: specIdFilter_def specIdBounds_def)
  next
    case (Num a)
    note first = Num
    show ?thesis
    proof (cases "parseInt h1")
      case NaN
      with pieces have
        "\<nexists>a b rest. map parseInt (split CHR ''-'' (idFilter (state c))) = Num a # Num b # rest"
        by simp
      then have "filteredRecords (filterEffect c) =
          sortStep (state c) (searchStep (state c) (rawRecords c))"
        by (rule filterEffect_id_skipped)
      with NaN first halves show ?thesis
        by (simp add: specIdFilter_def specIdBounds_def)
    next
      case (Num b)
      with pieces first have "map parseInt (split CHR ''-'' (idFilter (state c))) =
          Num a # Num b # map parseInt ps"
        by simp
      from filterEffect_id_parsed [OF this] Num first halves show ?thesis
        by (simp add: specIdFilter_def specIdBounds_def)
    qed
  qed
qed

text \<open>
  C5, as amended. With the pieces of \<open>idFilter\<close> between all its \<open>-\<close> signs: when the
  first two pieces parse to the numbers \<open>a\<close> and \<open>b\<close>, the effect keeps, of the records
  that pass the search filter, exactly those whose id is between \<open>a\<close> clamped into 1 to
  100 and \<open>b\<close> clamped into 1 to 100, and then sorts; when the first piece or the
  second does not parse, or there is no second piece, no record is left out for its
  id. With the halves of the specification, split on the first \<open>-\<close>: when the second
  half is not signed, the effect is the id filter of the specification, which clamps
  both halves if both parse and has no effect otherwise; when the second half is
  signed, the id filter has no effect, whether or not the halves parse.
\<close>

theorem C5_id_filter_clamps_or_skips:
  "(map parseInt (split CHR ''-'' (idFilter (state c))) = Num a # Num b # rest \<longrightarrow>
      filteredRecords (filterEffect c) =
        sortStep (state c)
          (filter (\<lambda>item. max 1 (min 100 a) \<le> id' item \<and> id' item \<le> max 1 (min 100 b))
             (searchStep (state c) (rawRecords c))) \<and>
      1 \<le> max 1 (min 100 a) \<and> max 1 (min 100 a) \<le> 100 \<and>
      1 \<le> max 1 (min 100 b) \<and> max 1 (min 100 b) \<le> 100) \<and>
   ((\<nexists>a b rest. map parseInt (split CHR ''-'' (idFilter (state c))) = Num a # Num b # rest) \<longrightarrow>
      filteredRecords (filterEffect c) = sortStep (state c) (searchStep (state c) (rawRecords c))) \<and>
   (\<not> secondHalfSigned (idFilter (state c)) \<longrightarrow>
      filteredRecords (filterEffect c) =
        sortStep (state c)
          (specIdFilter (idFilter (state c)) (searchStep (state c) (rawRecords c)))) \<and>
   (secondHalfSigned (idFilter (state c)) \<longrightarrow>
      filteredRecords (filterEffect c) = sortStep (state c) (searchStep (state c) (rawRecords c)))"
proof (intro conjI impI)
  assume "map parseInt (split CHR ''-'' (idFilter (state c))) = Num a # Num b # rest"
  then show "filteredRecords (filterEffect c) =
        sortStep (state c)
          (filter (\<lambda>item. max 1 (min 100 a) \<le> id' item \<and> id' item \<le> max 1 (min 100 b))
             (searchStep (state c) (rawRecords c)))"
    by (rule filterEffect_id_parsed)
next
  assume "\<nexists>a b rest. map parseInt (split CHR ''-'' (idFilter (state c))) = Num a # Num b # rest"
  then show "filteredRecords (filterEffect c) =
      sortStep (state c) (searchStep (state c) (rawRecords c))"
    by (rule filterEffect_id_skipped)
next
  assume "\<not> secondHalfSigned (idFilter (state c))"
  then show "filteredRecords (filterEffect c) =
        sortStep (state c)
          (specIdFilter (idFilter (state c)) (searchStep (state c) (rawRecords c)))"
    by (rule filterEffect_unsigned_half)
next
  assume "secondHalfSigned (idFilter (state c))"
  then show "filteredRecords (filterEffect c) =
      sortStep (state c) (searchStep (state c) (rawRecords c))"
    by (rule filterEffect_signed_half)
qed simp_all

text \<open>
  The filter \<open>150-200\<close> acts as the range 100 to 100, \<open>2-x\<close> has no effect, \<open>2-3\<close> keeps
  the ids 2 and 3, and \<open>1--3\<close> has no effect.
\<close>

theorem C5_id_filter_clamps_or_skips_witness:
  "filteredRecords
     (filterEffect
        (fetched (scenarioRecords @ [\<lparr>id' = 100, title = ''Omega'', body = ''w''\<rparr>])
           (defaultState\<lparr>idFilter := ''150-200''\<rparr>))) =
     [\<lparr>id' = 100, title = ''Omega'', body = ''w''\<rparr>] \<and>
   filteredRecords (filterEffect (fetched scenarioRecords (defaultState\<lparr>idFilter := ''2-x''\<rparr>))) =
     scenarioRecords \<and>
   filteredRecords (filterEffect (fetched scenarioRecords (defaultState\<lparr>idFilter := ''2-3''\<rparr>))) =
     [\<lparr>id' = 2, title = ''Beta'', body = ''y''\<rparr>, \<lparr>id' = 3, title = ''Gamma'', body = ''z''\<rparr>] \<and>
   filteredRecords (filterEffect (fetched scenarioRecords (defaultState\<lparr>idFilter := ''1--3''\<rparr>))) =
     scenarioRecords"
proof -
  let ?c1 = "fetched (scenarioRecords @ [\<lparr>id' = 100, title = ''Omega'', body = ''w''\<rparr>])
               (defaultState\<lparr>idFilter := ''150-200''\<rparr>)"
  let ?c2 = "fetched scenarioRecords (defaultState\<lparr>idFilter := ''2-x''\<rparr>)"
  let ?c3 = "fetched scenarioRecords (defaultState\<lparr>idFilter := ''2-3''\<rparr>)"
  let ?c4 = "fetched scenarioRecords (defaultState\<lparr>idFilter := ''1--3''\<rparr>)"
  have p1: "map parseInt (split CHR ''-'' (idFilter (state ?c1))) = Num 150 # Num 200 # []"
    by code_simp
  have p2: "map parseInt (split CHR ''-'' (idFilter (state ?c2))) = [Num 2, NaN]"
    by code_simp
  have n2: "\<nexists>a b rest. map parseInt (split CHR ''-'' (idFilter (state ?c2))) = Num a # Num b # rest"
    unfolding p2 by simp
  have u3: "\<not> secondHalfSigned (idFilter (state ?c3))"
    by code_simp
  have s4: "secondHalfSigned (idFilter (state ?c4))"
    by code_simp
  have r1: "filteredRecords (filterEffect ?c1) =
      sortStep (state ?c1)
        (filter (\<lambda>item. max 1 (min 100 150) \<le> id' item \<and> id' item \<le> max 1 (min 100 200))
           (searchStep (state ?c1) (rawRecords ?c1)))"
    using C5_id_filter_clamps_or_skips [of ?c1 150 200 "[]"] p1 by blast
  have r2: "filteredRecords (filterEffect ?c2) =
      sortStep (state ?c2) (searchStep (state ?c2) (rawRecords ?c2))"
    using C5_id_filter_clamps_or_skips [of ?c2] n2 by blast
  have r3: "filteredRecords (filterEffect ?c3) =
      sortStep (state ?c3)
        (specIdFilter (idFilter (state ?c3)) (searchStep (state ?c3) (rawRecords ?c3)))"
    using C5_id_filter_clamps_or_skips [of ?c3] u3 by blast
  have r4: "filteredRecords (filterEffect ?c4) =
      sortStep (state ?c4) (searchStep (state ?c4) (rawRecords ?c4))"
    using C5_id_filter_clamps_or_skips [of ?c4] s4 by blast
  have e1: "sortStep (state ?c1)
        (filter (\<lambda>item. max 1 (min 100 150) \<le> id' item \<and> id' item \<le> max 1 (min 100 200))
           (searchStep (state ?c1) (rawRecords ?c1))) =
      [\<lparr>id' = 100, title = ''Omega'', body = ''w''\<rparr>]"
    by code_simp
  have e2: "sortStep (state ?c2) (searchStep (state ?c2) (rawRecords ?c2)) = scenarioRecords"
    by code_simp
  have e3: "sortStep (state ?c3)
        (specIdFilter (idFilter (state ?c3)) (searchStep (state ?c3) (rawRecords ?c3))) =
      [\<lparr>id' = 2, title = ''Beta'', body = ''y''\<rparr>, \<lparr>id' = 3, title = ''Gamma'', body = ''z''\<rparr>]"
    by code_simp
  have e4: "sortStep (state ?c4) (searchStep (state ?c4) (rawRecords ?c4)) = scenarioRecords"
    by code_simp
  show ?thesis
    using r1 r2 r3 r4 e1 e2 e3 e4 by simp
qed

text \<open>
  The claim C5 as it is written fails at the text \<open>1--3\<close>, which the id input lets
  through. Its halves \<open>1\<close> and \<open>-3\<close> both parse and clamp to the range 1 to 1, which
  holds the record with id 1 only; the program takes the pieces \<open>1\<close> and the empty
  string, skips the id filter and keeps all three records.
\<close>

theorem C5_signed_second_half_counterexample:
  "onIdFilterChange ''1--3'' defaultState = Some (defaultState\<lparr>idFilter := ''1--3''\<rparr>) \<and>
   specHalves ''1--3'' = Some (''1'', ''-3'') \<and>
   parseInt ''1'' = Num 1 \<and> parseInt ''-3'' = Num (- 3) \<and>
   specIdFilter ''1--3'' scenarioRecords = [\<lparr>id' = 1, title = ''Alpha'', body = ''x''\<rparr>] \<and>
   filteredRecords (filterEffect (fetched scenarioRecords (defaultState\<lparr>idFilter := ''1--3''\<rparr>))) =
     scenarioRecords \<and>
   filteredRecords (filterEffect (fetched scenarioRecords (defaultState\<lparr>idFilter := ''1--3''\<rparr>))) \<noteq>
     specIdFilter ''1--3'' scenarioRecords"
  by code_simp

text \<open>
  The claim C2 as it is written fails where no record passes the filter: with the
  three records of the scenarios and the id filter \<open>150-200\<close>, the page count the
  program computes is 0, while the greater of 1 and the ceiling is 1.
\<close>

theorem C2_page_count_counterexample:
  "filteredRecords (filterEffect (fetched scenarioRecords (defaultState\<lparr>idFilter := ''150-200''\<rparr>)))
     = [] \<and>
   pageCount
     (filteredRecords (filterEffect (fetched scenarioRecords (defaultState\<lparr>idFilter := ''150-200''\<rparr>))))
     = 0 \<and>
   max 1 \<lceil>(of_nat (length
       (filteredRecords
          (filterEffect (fetched scenarioRecords (defaultState\<lparr>idFilter := ''150-200''\<rparr>))))) :: rat)
       / of_int itemsPerPage\<rceil> = 1"
  by code_simp

text \<open>
  C3. The effect at a state with a sort field and no active filter, the state after
  two clicks on the \<open>ID\<close> header: \<open>filtered\<close> is still the array \<open>data\<close> when \<open>sort\<close>
  is called on it, and the raw records, fetched in the order 1, 2, 3, are in the
  order 3, 2, 1 afterwards.
\<close>

theorem C3_sort_mutates_raw_records:
  "handleSort Id (handleSort Id defaultState) =
     defaultState\<lparr>sortField := Some Id, sortOrder := Desc\<rparr> \<and>
   rawRecords (fetched scenarioRecords (defaultState\<lparr>sortField := Some Id, sortOrder := Desc\<rparr>)) =
     scenarioRecords \<and>
   rawRecords
     (filterEffect
        (fetched scenarioRecords (defaultState\<lparr>sortField := Some Id, sortOrder := Desc\<rparr>))) =
     rev scenarioRecords \<and>
   rev scenarioRecords \<noteq> scenarioRecords"
  by code_simp

text \<open>
  The paths of the effect. Where a filter has run, \<open>sort\<close> is called on the copy
  that \<open>filter\<close> made, and where there is no sort field nothing is sorted: the raw
  records stay. Where no filter has run and there is a sort field, the raw records
  themselves are sorted.
\<close>

lemma filterEffect_raw_kept_when_copied:
  assumes "data c < fresh (heap c)"
    and "searchQuery (state c) \<noteq> [] \<or>
         (\<not> isNaN (fst (idBounds (state c))) \<and> \<not> isNaN (snd (idBounds (state c)))) \<or>
         sortField (state c) = None"
  shows "rawRecords (filterEffect c) = rawRecords c"
  using assms
  by (cases "idBounds (state c)")
     (auto simp add: filterEffect_def rawRecords_def array_filter_def array_sort_def alloc_def
        Let_def split: option.split)

lemma filterEffect_raw_sorted_when_aliased:
  assumes "searchQuery (state c) = []"
    and "isNaN (fst (idBounds (state c))) \<or> isNaN (snd (idBounds (state c)))"
    and "sortField (state c) = Some field"
  shows "rawRecords (filterEffect c) = sortBy (compareFn field (sortOrder (state c))) (rawRecords c)"
  using assms
  by (cases "idBounds (state c)")
     (auto simp add: filterEffect_def rawRecords_def array_filter_def array_sort_def alloc_def
        Let_def split: option.split)

section \<open>The durable store\<close>

subsection \<open>Strings: \<open>JSON.parse\<close> reads what \<open>QuoteJSONString\<close> writes\<close>

lemma hexValue_hexDigit: "k < 16 \<Longrightarrow> hexValue (hexDigit k) = Some k"
  by (auto simp add: hexValue_def hexDigit_def digitChar_def Let_def)

lemma consChar_Inr: "consChar c (Inr (s, r)) = Inr (c # s, r)"
  by (simp add: consChar_def)

lemma char_eq_iff_of_char: "(c = d) = ((of_char c :: nat) = of_char d)"
  by auto

lemma parse_quoteChar:
  "parseStringBody (quoteChar c @ rest) = consChar c (parseStringBody rest)"
proof -
  let ?n = "of_char c :: nat"
  have lt: "?n < 256"
    by simp
  consider (esc) "?n \<in> {8, 9, 10, 12, 13, 34, 92}"
    | (ctl) "?n < 32" "?n \<notin> {8, 9, 10, 12, 13, 34, 92}"
    | (plain) "32 \<le> ?n" "?n \<notin> {8, 9, 10, 12, 13, 34, 92}"
    by fastforce
  then show ?thesis
  proof cases
    case esc
    then have "c \<in> {CHR 0x08, CHR 0x09, CHR 0x0A, CHR 0x0C, CHR 0x0D, CHR 0x22, CHR 0x5C}"
      by (auto simp add: char_eq_iff_of_char)
    then show ?thesis
      by (auto simp add: quoteChar_def unescape_def)
  next
    case ctl
    have d1: "?n div 16 < 16" and d2: "?n mod 16 < 16"
      using ctl(1) by simp_all
    have cback: "char_of (?n div 16 * 16 + ?n mod 16) = c"
      by simp
    have zero: "hexValue CHR ''0'' = Some 0"
      by (simp add: hexValue_def)
    have small: "?n div 16 * 16 + ?n mod 16 < 256"
      using lt by simp
    show ?thesis
      using ctl small
      by (simp add: quoteChar_def Let_def hexValue_hexDigit [OF d1] hexValue_hexDigit [OF d2]
            zero cback)
  next
    case plain
    then have "c \<noteq> CHR 0x22" "c \<noteq> CHR 0x5C"
      by auto
    with plain show ?thesis
      by (simp add: quoteChar_def Let_def)
  qed
qed

lemma parse_quoted_body:
  "parseStringBody (concat (map quoteChar s) @ CHR 0x22 # rest) = Inr (s, rest)"
  by (induction s) (simp_all add: parse_quoteChar consChar_Inr)


subsection \<open>Numbers: the digits of an integer\<close>

declare natToString.simps [simp del]

lemma isDigit_digitChar: "d < 10 \<Longrightarrow> isDigit (digitChar d)"
  by (simp add: isDigit_def digitChar_def)

lemma digitValue_digitChar: "d < 10 \<Longrightarrow> digitValue (digitChar d) = int d"
  by (simp add: digitValue_def digitChar_def)

lemma of_char_digitChar: "d < 10 \<Longrightarrow> (of_char (digitChar d) :: nat) = 48 + d"
  by (simp add: digitChar_def)

lemma digitChar_0: "digitChar 0 = CHR ''0''"
  by (subst char_eq_iff_of_char) (simp add: of_char_digitChar)

lemma digitChar_not_0: "0 < d \<Longrightarrow> d < 10 \<Longrightarrow> digitChar d \<noteq> CHR ''0''"
  by (subst char_eq_iff_of_char) (simp add: of_char_digitChar)

lemma natToString_digits: "\<forall>c \<in> set (natToString n). isDigit c"
proof (induction n rule: natToString.induct)
  case (1 n)
  show ?case
  proof (cases "n < 10")
    case True
    then show ?thesis
      by (subst natToString.simps) (simp add: isDigit_digitChar)
  next
    case False
    with 1 show ?thesis
      by (subst natToString.simps) (simp add: isDigit_digitChar)
  qed
qed

lemma natToString_not_Nil: "natToString n \<noteq> []"
  by (subst natToString.simps) simp

lemma natToString_hd: "0 < n \<Longrightarrow> hd (natToString n) \<noteq> CHR ''0''"
proof (induction n rule: natToString.induct)
  case (1 n)
  show ?case
  proof (cases "n < 10")
    case True
    with 1(2) have "digitChar n \<noteq> CHR ''0''"
      by (simp add: digitChar_not_0)
    with True show ?thesis
      by (subst natToString.simps) simp
  next
    case False
    then have "0 < n div 10"
      by simp
    with 1(1) False have "hd (natToString (n div 10)) \<noteq> CHR ''0''"
      by simp
    with False show ?thesis
      by (subst natToString.simps) (simp add: natToString_not_Nil)
  qed
qed

lemma digitsValue_snoc: "digitsValue (ds @ [c]) = 10 * digitsValue ds + digitValue c"
  by (simp add: digitsValue_def)

lemma digitsValue_natToString: "digitsValue (natToString n) = int n"
proof (induction n rule: natToString.induct)
  case (1 n)
  show ?case
  proof (cases "n < 10")
    case True
    then show ?thesis
      by (subst natToString.simps) (simp add: digitsValue_def digitValue_digitChar)
  next
    case False
    have "int (10 * (n div 10) + n mod 10) = int n"
      by simp
    then have "10 * int (n div 10) + int (n mod 10) = int n"
      by (simp only: of_nat_add of_nat_mult of_nat_numeral)
    with 1 False show ?thesis
      by (subst natToString.simps) (simp add: digitsValue_snoc digitValue_digitChar)
  qed
qed

lemma takeWhile_digits:
  assumes "\<forall>c \<in> set ds. isDigit c" and "\<not> isDigit d"
  shows "takeWhile isDigit (ds @ d # rest) = ds" and "dropWhile isDigit (ds @ d # rest) = d # rest"
  using assms by (simp_all add: takeWhile_append2 dropWhile_append2)

lemma brace_not_digit: "\<not> isDigit CHR ''}''"
  by (simp add: isDigit_def)

lemma parseIntPart_natToString:
  "parseIntPart (natToString n @ CHR ''}'' # rest) = Inr (natToString n, CHR ''}'' # rest)"
proof (cases "n = 0")
  case True
  have "natToString 0 = [CHR ''0'']"
    by (subst natToString.simps) (simp add: digitChar_0)
  with True show ?thesis
    by (simp add: parseIntPart_def)
next
  case False
  obtain c cs where split: "natToString n = c # cs"
    using natToString_not_Nil [of n] by (cases "natToString n") auto
  have "c \<noteq> CHR ''0''"
    using natToString_hd [of n] False split by simp
  moreover have "isDigit c"
    using natToString_digits [of n] split by simp
  moreover have "takeWhile isDigit ((c # cs) @ CHR ''}'' # rest) = c # cs"
    and "dropWhile isDigit ((c # cs) @ CHR ''}'' # rest) = CHR ''}'' # rest"
    using takeWhile_digits [of "c # cs" "CHR ''}''" rest] natToString_digits [of n] split
      brace_not_digit by simp_all
  ultimately show ?thesis
    unfolding split by (simp add: parseIntPart_def)
qed

lemma parseNumber_numberToString:
  "parseNumber (numberToString i @ CHR ''}'' # rest) = Inr (of_int i, CHR ''}'' # rest)"
proof -
  have frac: "parseFraction (CHR ''}'' # rest) = Inr ([], CHR ''}'' # rest)"
    by (simp add: parseFraction_def)
  have expo: "parseExponent (CHR ''}'' # rest) = Inr (0, CHR ''}'' # rest)"
    by (simp add: parseExponent_def)
  show ?thesis
  proof (cases "i < 0")
    case True
    then show ?thesis
      by (simp add: numberToString_def parseNumber_def parseIntPart_natToString frac expo
            digitsValue_natToString scale10_def)
  next
    case False
    obtain c cs where split: "natToString (nat i) = c # cs"
      using natToString_not_Nil [of "nat i"] by (cases "natToString (nat i)") auto
    have "isDigit c"
      using natToString_digits [of "nat i"] split by simp
    then have "c \<noteq> CHR ''-''"
      by (auto simp add: isDigit_def)
    then have sign:
      "(case natToString (nat i) @ CHR ''}'' # rest of
          [] \<Rightarrow> (1, natToString (nat i) @ CHR ''}'' # rest)
        | c # cs \<Rightarrow>
            if c = CHR ''-'' then (- 1, cs) else (1::int, natToString (nat i) @ CHR ''}'' # rest)) =
       (1, natToString (nat i) @ CHR ''}'' # rest)"
      by (simp add: split)
    from False show ?thesis
      by (simp add: numberToString_def parseNumber_def sign parseIntPart_natToString frac expo
            digitsValue_natToString scale10_def)
  qed
qed


subsection \<open>The text of a \<open>TableState\<close>\<close>

lemma skipWs_Cons: "\<not> isJsonWs c \<Longrightarrow> skipWs (c # s) = c # s"
  by (simp add: skipWs_def)

lemma quote_not_ws: "\<not> isJsonWs (CHR 0x22)"
  by (simp add: isJsonWs_def)

lemma parseValue_string:
  "parseValue (Suc n) (quoteJSONString s @ rest) = Inr (JStr s, rest)"
  by (simp add: quoteJSONString_def skipWs_Cons quote_not_ws parse_quoted_body)

lemma parseValue_null: "parseValue (Suc n) (''null'' @ rest) = Inr (JNull, rest)"
  by (simp add: skipWs_def isJsonWs_def isDigit_def)

lemma numberToString_first:
  obtains c cs where "numberToString i = c # cs" and "c = CHR ''-'' \<or> isDigit c"
proof (cases "i < 0")
  case True
  then show ?thesis
    using that by (simp add: numberToString_def)
next
  case False
  obtain c cs where split: "natToString (nat i) = c # cs"
    using natToString_not_Nil [of "nat i"] by (cases "natToString (nat i)") auto
  moreover have "isDigit c"
    using natToString_digits [of "nat i"] split by simp
  ultimately show ?thesis
    using that False by (simp add: numberToString_def)
qed

lemma parseValue_number:
  "parseValue (Suc n) (numberToString i @ CHR ''}'' # rest) =
     Inr (JNum (of_int i), CHR ''}'' # rest)"
proof -
  obtain c cs where split: "numberToString i = c # cs" and first: "c = CHR ''-'' \<or> isDigit c"
    by (rule numberToString_first)
  from first have "\<not> isJsonWs c" "c \<noteq> CHR ''{''" "c \<noteq> CHR ''[''" "c \<noteq> CHR 0x22"
    by (auto simp add: isJsonWs_def isDigit_def)
  moreover have "parseNumber (c # cs @ CHR ''}'' # rest) = Inr (of_int i, CHR ''}'' # rest)"
    using parseNumber_numberToString [of i rest] split by simp
  ultimately show ?thesis
    using first by (simp add: split skipWs_Cons)
qed

lemma parseMembers_more:
  assumes "parseValue n valueAndRest = Inr (v, CHR '','' # after)"
  shows "parseMembers (Suc n) (quoteJSONString k @ CHR '':'' # valueAndRest) =
     (case parseMembers n after of
        Inl e \<Rightarrow> Inl e
      | Inr (ms, r) \<Rightarrow> Inr ((k, v) # ms, r))"
  using assms
  by (simp add: quoteJSONString_def skipWs_Cons quote_not_ws parse_quoted_body skipWs_def
        isJsonWs_def)

lemma parseMembers_last:
  assumes "parseValue n valueAndRest = Inr (v, CHR ''}'' # after)"
  shows "parseMembers (Suc n) (quoteJSONString k @ CHR '':'' # valueAndRest) = Inr ([(k, v)], after)"
  using assms
  by (simp add: quoteJSONString_def skipWs_Cons quote_not_ws parse_quoted_body skipWs_def
        isJsonWs_def)

lemma parseValue_object:
  assumes "parseMembers n (quoteJSONString k @ ms) = Inr (props, rest)"
  shows "parseValue (Suc n) (CHR ''{'' # quoteJSONString k @ ms) =
     Inr (JObj (buildObject props), rest)"
  using assms by (simp add: quoteJSONString_def skipWs_def isJsonWs_def)

declare parseValue.simps [simp del] parseElements.simps [simp del] parseMembers.simps [simp del]

lemma parseValue_sortField:
  "parseValue (Suc n) (sortFieldText f @ rest) =
     Inr ((case f of None \<Rightarrow> JNull | Some Id \<Rightarrow> JStr ''id'' | Some Title \<Rightarrow> JStr ''title''), rest)"
proof (cases f)
  case None
  then show ?thesis
    using parseValue_null [of n rest] by (simp add: sortFieldText_def)
next
  case (Some field)
  then show ?thesis
    by (cases field) (simp_all add: sortFieldText_def parseValue_string)
qed

lemma parseValue_sortOrder:
  "parseValue (Suc n) (sortOrderText ord @ rest) =
     Inr ((case ord of Asc \<Rightarrow> JStr ''asc'' | Desc \<Rightarrow> JStr ''desc''), rest)"
  by (cases ord) (simp_all add: sortOrderText_def parseValue_string)

lemma buildObject_TableState:
  "buildObject [(''searchQuery'', a), (''idFilter'', b), (''sortField'', c), (''sortOrder'', d),
      (''page'', e)] =
   [(''searchQuery'', a), (''idFilter'', b), (''sortField'', c), (''sortOrder'', d), (''page'', e)]"
  by (simp add: buildObject_def)

lemma parseValue_stringify:
  "parseValue (Suc (Suc (Suc (Suc (Suc (Suc (Suc n))))))) (JSON_stringify v) = Inr (toJS v, [])"
proof -
  let ?t5 = "numberToString (page v) @ ''}''"
  let ?t4 = "sortOrderText (sortOrder v) @ CHR '','' # quoteJSONString ''page'' @ CHR '':'' # ?t5"
  let ?t3 = "sortFieldText (sortField v) @ CHR '','' # quoteJSONString ''sortOrder'' @ CHR '':'' # ?t4"
  let ?t2 = "quoteJSONString (idFilter v) @ CHR '','' # quoteJSONString ''sortField'' @ CHR '':'' # ?t3"
  let ?t1 = "quoteJSONString (searchQuery v) @ CHR '','' # quoteJSONString ''idFilter'' @ CHR '':'' # ?t2"
  have m5: "parseMembers (Suc (Suc n)) (quoteJSONString ''page'' @ CHR '':'' # ?t5) =
      Inr ([(''page'', JNum (of_int (page v)))], [])"
    by (rule parseMembers_last) (simp add: parseValue_number)
  have m4: "parseMembers (Suc (Suc (Suc n))) (quoteJSONString ''sortOrder'' @ CHR '':'' # ?t4) =
      Inr ([(''sortOrder'', (case sortOrder v of Asc \<Rightarrow> JStr ''asc'' | Desc \<Rightarrow> JStr ''desc'')),
            (''page'', JNum (of_int (page v)))], [])"
    by (subst parseMembers_more [OF parseValue_sortOrder]) (simp add: m5)
  have m3: "parseMembers (Suc (Suc (Suc (Suc n)))) (quoteJSONString ''sortField'' @ CHR '':'' # ?t3) =
      Inr ([(''sortField'',
              (case sortField v of None \<Rightarrow> JNull | Some Id \<Rightarrow> JStr ''id''
               | Some Title \<Rightarrow> JStr ''title'')),
            (''sortOrder'', (case sortOrder v of Asc \<Rightarrow> JStr ''asc'' | Desc \<Rightarrow> JStr ''desc'')),
            (''page'', JNum (of_int (page v)))], [])"
    by (subst parseMembers_more [OF parseValue_sortField]) (simp add: m4)
  have m2: "parseMembers (Suc (Suc (Suc (Suc (Suc n))))) (quoteJSONString ''idFilter'' @ CHR '':'' # ?t2) =
      Inr ([(''idFilter'', JStr (idFilter v)),
            (''sortField'',
              (case sortField v of None \<Rightarrow> JNull | Some Id \<Rightarrow> JStr ''id''
               | Some Title \<Rightarrow> JStr ''title'')),
            (''sortOrder'', (case sortOrder v of Asc \<Rightarrow> JStr ''asc'' | Desc \<Rightarrow> JStr ''desc'')),
            (''page'', JNum (of_int (page v)))], [])"
    by (subst parseMembers_more [OF parseValue_string]) (simp add: m3)
  have m1: "parseMembers (Suc (Suc (Suc (Suc (Suc (Suc n))))))
        (quoteJSONString ''searchQuery'' @ CHR '':'' # ?t1) =
      Inr ([(''searchQuery'', JStr (searchQuery v)),
            (''idFilter'', JStr (idFilter v)),
            (''sortField'',
              (case sortField v of None \<Rightarrow> JNull | Some Id \<Rightarrow> JStr ''id''
               | Some Title \<Rightarrow> JStr ''title'')),
            (''sortOrder'', (case sortOrder v of Asc \<Rightarrow> JStr ''asc'' | Desc \<Rightarrow> JStr ''desc'')),
            (''page'', JNum (of_int (page v)))], [])"
    by (subst parseMembers_more [OF parseValue_string]) (simp add: m2)
  have whole: "JSON_stringify v = CHR ''{'' # quoteJSONString ''searchQuery'' @ CHR '':'' # ?t1"
    by (simp add: JSON_stringify_def memberText_def)
  show ?thesis
    unfolding whole parseValue_object [OF m1]
    by (simp only: buildObject_TableState toJS_def)
qed

lemma parse_stringify: "JSON_parse (JSON_stringify v) = Inr (toJS v)"
proof -
  have "7 \<le> length (JSON_stringify v)"
    by (simp add: JSON_stringify_def memberText_def quoteJSONString_def)
  then have "2 * length (JSON_stringify v) + 1 =
      Suc (Suc (Suc (Suc (Suc (Suc (Suc (2 * length (JSON_stringify v) - 6)))))))"
    by linarith
  then show ?thesis
    unfolding JSON_parse_def by (simp only: parseValue_stringify) (simp add: skipWs_def)
qed


subsection \<open>The recursion bound of \<open>JSON_parse\<close> is never reached\<close>

text \<open>
  Every parser leaves less text than it was given, and twice the length of the text
  bounds the depth of the recursion: \<open>JSON_parse\<close> fails with \<open>SyntaxError\<close> or
  \<open>OutsideModel\<close> only.
\<close>

lemma skipWs_length: "length (skipWs s) \<le> length s"
  by (simp add: skipWs_def length_dropWhile_le)

lemma skipWs_ConsD: "skipWs s = c # cs \<Longrightarrow> length cs < length s"
  using skipWs_length [of s] by simp

lemma consChar_InrD:
  "consChar c res = Inr (str, r) \<Longrightarrow> \<exists>str'. res = Inr (str', r)"
  by (cases res) (auto simp add: consChar_def)

lemma parseStringBody_progress:
  "parseStringBody cs = Inr (str, r) \<Longrightarrow> length r < length cs"
proof (induction cs arbitrary: str rule: parseStringBody.induct)
  case 1
  then show ?case by simp
next
  case (2 c cs)
  show ?case
  proof (cases "c = CHR 0x22")
    case True
    with 2(4) show ?thesis by simp
  next
    case nq: False
    show ?thesis
    proof (cases "c = CHR 0x5C")
      case bs: True
      show ?thesis
      proof (cases cs)
        case Nil
        with 2(4) nq bs show ?thesis by simp
      next
        case (Cons e r0)
        show ?thesis
        proof (cases "e = CHR ''u''")
          case u: True
          from 2(4) nq bs Cons u obtain h1 h2 h3 h4 r' a b c' d where
            r0: "r0 = h1 # h2 # h3 # h4 # r'" and
            hv: "hexValue h1 = Some a" "hexValue h2 = Some b" "hexValue h3 = Some c'" "hexValue h4 = Some d" and
            lt: "((a * 16 + b) * 16 + c') * 16 + d < 256" and
            res: "consChar (char_of (((a * 16 + b) * 16 + c') * 16 + d)) (parseStringBody r') = Inr (str, r)"
            by (auto simp add: Let_def split: list.splits option.splits if_splits)
          from res obtain str' where "parseStringBody r' = Inr (str', r)"
            by (auto dest: consChar_InrD)
          then have "length r < length r'"
            using 2(1) nq bs Cons u r0 hv lt by (simp add: Let_def)
          then show ?thesis
            using Cons r0 by simp
        next
          case nu: False
          from 2(4) nq bs Cons nu obtain ch where
            ue: "unescape e = Some ch" and res: "consChar ch (parseStringBody r0) = Inr (str, r)"
            by (auto split: option.splits)
          from res obtain str' where "parseStringBody r0 = Inr (str', r)"
            by (auto dest: consChar_InrD)
          then have "length r < length r0"
            using 2(2) nq bs Cons nu ue by simp
          then show ?thesis
            using Cons by simp
        qed
      qed
    next
      case nbs: False
      from 2(4) nq nbs have ge: "\<not> (of_char c :: nat) < 32"
        and res: "consChar c (parseStringBody cs) = Inr (str, r)"
        by (auto split: if_splits)
      from res obtain str' where "parseStringBody cs = Inr (str', r)"
        by (auto dest: consChar_InrD)
      then have "length r < length cs"
        using 2(3) nq nbs ge by simp
      then show ?thesis by simp
    qed
  qed
qed


lemma parseIntPart_progress: "parseIntPart s = Inr (ds, r) \<Longrightarrow> length r < length s"
proof (cases s)
  case Nil
  then show "parseIntPart s = Inr (ds, r) \<Longrightarrow> length r < length s"
    by (simp add: parseIntPart_def)
next
  case (Cons c cs)
  assume res: "parseIntPart s = Inr (ds, r)"
  show "length r < length s"
  proof (cases "c = CHR ''0''")
    case True
    with res Cons show ?thesis
      by (simp add: parseIntPart_def)
  next
    case False
    with res Cons have "isDigit c" and "r = dropWhile isDigit cs"
      by (auto simp add: parseIntPart_def split: if_splits)
    then show ?thesis
      using Cons length_dropWhile_le [of isDigit cs] by simp
  qed
qed

lemma parseFraction_progress: "parseFraction s = Inr (fs, r) \<Longrightarrow> length r \<le> length s"
  using length_dropWhile_le [of isDigit "tl s"]
  by (cases s) (auto simp add: parseFraction_def split: if_splits)

lemma parseExponent_progress: "parseExponent s = Inr (ex, r) \<Longrightarrow> length r \<le> length s"
proof (cases s)
  case Nil
  then show "parseExponent s = Inr (ex, r) \<Longrightarrow> length r \<le> length s"
    by (simp add: parseExponent_def)
next
  case (Cons c cs)
  assume res: "parseExponent s = Inr (ex, r)"
  show "length r \<le> length s"
  proof (cases "c = CHR ''e'' \<or> c = CHR ''E''")
    case False
    with res Cons show ?thesis
      by (auto simp add: parseExponent_def)
  next
    case True
    with res Cons obtain ds where "r = dropWhile isDigit ds" and "length ds \<le> length cs"
      by (auto simp add: parseExponent_def Let_def split: list.splits if_splits)
    then show ?thesis
      using Cons length_dropWhile_le [of isDigit ds] by simp
  qed
qed

lemma parseNumber_progress:
  assumes "parseNumber s = Inr (q, r)"
  shows "length r < length s"
proof -
  obtain sign s1 where sg:
    "(case s of [] \<Rightarrow> (1, s) | c # cs \<Rightarrow> if c = CHR ''-'' then (- 1, cs) else (1::int, s)) =
       (sign, s1)"
    by (cases "(case s of [] \<Rightarrow> (1, s) | c # cs \<Rightarrow> if c = CHR ''-'' then (- 1, cs) else (1::int, s))")
  then have l1: "length s1 \<le> length s"
    by (cases s) (auto split: if_splits)
  from assms sg obtain ds s2 fs s3 ex where
    "parseIntPart s1 = Inr (ds, s2)" "parseFraction s2 = Inr (fs, s3)"
    "parseExponent s3 = Inr (ex, r)"
    by (auto simp add: parseNumber_def split: sum.splits)
  then have "length s2 < length s1" "length s3 \<le> length s2" "length r \<le> length s3"
    by (auto dest: parseIntPart_progress parseFraction_progress parseExponent_progress)
  with l1 show ?thesis
    by linarith
qed

lemma parse_progress:
  "(\<forall>s v r. parseValue n s = Inr (v, r) \<longrightarrow> length r < length s) \<and>
   (\<forall>s vs r. parseElements n s = Inr (vs, r) \<longrightarrow> length r < length s) \<and>
   (\<forall>s ms r. parseMembers n s = Inr (ms, r) \<longrightarrow> length r < length s)"
proof (induction n)
  case 0
  show ?case
    by (simp add: parseValue.simps parseElements.simps parseMembers.simps)
next
  case (Suc n)
  then have ihV: "\<And>s v r. parseValue n s = Inr (v, r) \<Longrightarrow> length r < length s"
    and ihE: "\<And>s vs r. parseElements n s = Inr (vs, r) \<Longrightarrow> length r < length s"
    and ihM: "\<And>s ms r. parseMembers n s = Inr (ms, r) \<Longrightarrow> length r < length s"
    by blast+
  have V: "length r < length s" if res: "parseValue (Suc n) s = Inr (v, r)" for s v r
  proof (cases "skipWs s")
    case Nil
    with res show ?thesis
      by (simp add: parseValue.simps)
  next
    case (Cons c cs)
    then have cs: "length cs < length s"
      by (rule skipWs_ConsD)
    have inner: "length d < length s" if "skipWs cs = d" for d
      using that skipWs_length [of cs] cs by auto
    consider (obj) "c = CHR ''{''" | (arr) "c \<noteq> CHR ''{''" "c = CHR ''[''"
      | (str) "c \<noteq> CHR ''{''" "c \<noteq> CHR ''[''" "c = CHR 0x22"
      | (num) "c \<noteq> CHR ''{''" "c \<noteq> CHR ''[''" "c \<noteq> CHR 0x22" "c = CHR ''-'' \<or> isDigit c"
      | (lit) "c \<noteq> CHR ''{''" "c \<noteq> CHR ''[''" "c \<noteq> CHR 0x22" "\<not> (c = CHR ''-'' \<or> isDigit c)"
      by blast
    then show ?thesis
    proof cases
      case obj
      show ?thesis
      proof (cases "skipWs cs")
        case Nil
        with res Cons obj show ?thesis
          by (simp add: parseValue.simps)
      next
        case (Cons d r0)
        note in2 = Cons
        show ?thesis
        proof (cases "d = CHR ''}''")
          case True
          with res \<open>skipWs s = c # cs\<close> obj in2 have "r = r0"
            by (simp add: parseValue.simps)
          with inner [OF in2] show ?thesis by simp
        next
          case False
          with res \<open>skipWs s = c # cs\<close> obj in2 obtain ms where
            "parseMembers n (d # r0) = Inr (ms, r)"
            by (auto simp add: parseValue.simps split: sum.splits)
          from ihM [OF this] inner [OF in2] show ?thesis by simp
        qed
      qed
    next
      case arr
      show ?thesis
      proof (cases "skipWs cs")
        case Nil
        with res Cons arr show ?thesis
          by (simp add: parseValue.simps)
      next
        case (Cons d r0)
        note in2 = Cons
        show ?thesis
        proof (cases "d = CHR '']''")
          case True
          with res \<open>skipWs s = c # cs\<close> arr in2 have "r = r0"
            by (simp add: parseValue.simps)
          with inner [OF in2] show ?thesis by simp
        next
          case False
          with res \<open>skipWs s = c # cs\<close> arr in2 obtain vs where
            "parseElements n (d # r0) = Inr (vs, r)"
            by (auto simp add: parseValue.simps split: sum.splits)
          from ihE [OF this] inner [OF in2] show ?thesis by simp
        qed
      qed
    next
      case str
      with res Cons obtain t where "parseStringBody cs = Inr (t, r)"
        by (auto simp add: parseValue.simps split: sum.splits)
      from parseStringBody_progress [OF this] cs show ?thesis by simp
    next
      case num
      with res Cons obtain q where "parseNumber (c # cs) = Inr (q, r)"
        by (auto simp add: parseValue.simps split: sum.splits)
      from parseNumber_progress [OF this] cs show ?thesis by simp
    next
      case lit
      with res Cons have "r = drop 4 (c # cs) \<or> r = drop 5 (c # cs)"
        by (auto simp add: parseValue.simps split: if_splits)
      with cs show ?thesis by auto
    qed
  qed
  have E: "length r < length s" if res: "parseElements (Suc n) s = Inr (vs, r)" for s vs r
  proof -
    from res obtain v r1 where v: "parseValue n s = Inr (v, r1)"
      by (auto simp add: parseElements.simps split: sum.splits)
    then have l1: "length r1 < length s"
      by (rule ihV)
    from res v obtain d r2 where sk: "skipWs r1 = d # r2"
      by (cases "skipWs r1") (auto simp add: parseElements.simps)
    then have l2: "length r2 < length r1"
      by (rule skipWs_ConsD)
    show ?thesis
    proof (cases "d = CHR '',''")
      case True
      with res v sk obtain vs' where "parseElements n r2 = Inr (vs', r)"
        by (auto simp add: parseElements.simps split: sum.splits)
      from ihE [OF this] l1 l2 show ?thesis by simp
    next
      case False
      with res v sk have "r = r2"
        by (auto simp add: parseElements.simps split: if_splits)
      with l1 l2 show ?thesis by simp
    qed
  qed
  have M: "length r < length s" if res: "parseMembers (Suc n) s = Inr (ms, r)" for s ms r
  proof -
    from res obtain q cs where sk0: "skipWs s = q # cs"
      by (cases "skipWs s") (auto simp add: parseMembers.simps)
    then have l0: "length cs < length s"
      by (rule skipWs_ConsD)
    from res sk0 have q: "q = CHR 0x22"
      by (auto simp add: parseMembers.simps split: if_splits)
    from res sk0 q obtain k r1 where k: "parseStringBody cs = Inr (k, r1)"
      by (auto simp add: parseMembers.simps split: sum.splits)
    then have l1: "length r1 < length cs"
      by (rule parseStringBody_progress)
    from res sk0 q k obtain d r2 where sk1: "skipWs r1 = d # r2"
      by (cases "skipWs r1") (auto simp add: parseMembers.simps)
    then have l2: "length r2 < length r1"
      by (rule skipWs_ConsD)
    from res sk0 q k sk1 have d: "d = CHR '':''"
      by (auto simp add: parseMembers.simps split: if_splits)
    from res sk0 q k sk1 d obtain v r3 where v: "parseValue n r2 = Inr (v, r3)"
      by (auto simp add: parseMembers.simps split: sum.splits)
    then have l3: "length r3 < length r2"
      by (rule ihV)
    from res sk0 q k sk1 d v obtain d' r4 where sk2: "skipWs r3 = d' # r4"
      by (cases "skipWs r3") (auto simp add: parseMembers.simps)
    then have l4: "length r4 < length r3"
      by (rule skipWs_ConsD)
    show ?thesis
    proof (cases "d' = CHR '',''")
      case True
      with res sk0 q k sk1 d v sk2 obtain ms' where "parseMembers n r4 = Inr (ms', r)"
        by (auto simp add: parseMembers.simps split: sum.splits)
      from ihM [OF this] l0 l1 l2 l3 l4 show ?thesis by simp
    next
      case False
      with res sk0 q k sk1 d v sk2 have "r = r4"
        by (auto simp add: parseMembers.simps split: if_splits)
      with l0 l1 l2 l3 l4 show ?thesis by simp
    qed
  qed
  from V E M show ?case
    by blast
qed


lemma consChar_InlD: "consChar c res = Inl e \<Longrightarrow> res = Inl e"
  by (cases res) (auto simp add: consChar_def)

lemma parseStringBody_fuel: "parseStringBody cs \<noteq> Inl OutOfFuel"
proof (induction "length cs" arbitrary: cs rule: less_induct)
  case less
  show ?case
  proof
    assume res: "parseStringBody cs = Inl OutOfFuel"
    then obtain c cs' where top: "cs = c # cs'"
      by (cases cs) auto
    from res top have nq: "c \<noteq> CHR 0x22"
      by (auto split: if_splits)
    have "\<exists>t. length t < length cs \<and> parseStringBody t = Inl OutOfFuel"
    proof (cases "c = CHR 0x5C")
      case bs: True
      from res top nq bs obtain e r0 where Cons: "cs' = e # r0"
        by (cases cs') auto
      show ?thesis
      proof (cases "e = CHR ''u''")
        case u: True
        from res top nq bs Cons u obtain h1 t1 where d1: "r0 = h1 # t1"
          by (cases r0) auto
        from res top nq bs Cons u d1 obtain h2 t2 where d2: "t1 = h2 # t2"
          by (cases t1) auto
        from res top nq bs Cons u d1 d2 obtain h3 t3 where d3: "t2 = h3 # t3"
          by (cases t2) auto
        from res top nq bs Cons u d1 d2 d3 obtain h4 r' where d4: "t3 = h4 # r'"
          by (cases t3) auto
        have short: "length r' < length cs"
          by (simp add: top Cons d1 d2 d3 d4)
        from res top nq bs Cons u d1 d2 d3 d4
        have "parseStringBody r' = Inl OutOfFuel"
          by (auto simp add: Let_def split: option.splits if_splits dest: consChar_InlD)
        with short show ?thesis
          by blast
      next
        case nu: False
        from res top nq bs Cons nu obtain ch where
          sub: "consChar ch (parseStringBody r0) = Inl OutOfFuel"
          by (auto split: option.splits)
        from sub have "parseStringBody r0 = Inl OutOfFuel"
          by (rule consChar_InlD)
        then show ?thesis
          using top Cons by (intro exI [of _ r0]) simp
      qed
    next
      case nbs: False
      from res top nq nbs have sub: "consChar c (parseStringBody cs') = Inl OutOfFuel"
        by (auto split: if_splits)
      from sub have "parseStringBody cs' = Inl OutOfFuel"
        by (rule consChar_InlD)
      then show ?thesis
        using top by (intro exI [of _ cs']) simp
    qed
    then show False
      using less by blast
  qed
qed

lemma parseNumber_fuel: "parseNumber s \<noteq> Inl OutOfFuel"
proof -
  have "parseIntPart t \<noteq> Inl OutOfFuel" for t
    by (cases t) (auto simp add: parseIntPart_def)
  moreover have "parseFraction t \<noteq> Inl OutOfFuel" for t
    by (cases t) (auto simp add: parseFraction_def)
  moreover have "parseExponent t \<noteq> Inl OutOfFuel" for t
    by (cases t) (auto simp add: parseExponent_def Let_def split: list.splits prod.splits if_splits)
  ultimately show ?thesis
    by (auto simp add: parseNumber_def split: sum.splits prod.splits)
qed

lemmas parse_progressV = parse_progress [THEN conjunct1, rule_format]

lemma parse_fuel:
  "(\<forall>s. 2 * length s + 1 \<le> n \<longrightarrow> parseValue n s \<noteq> Inl OutOfFuel) \<and>
   (\<forall>s. 2 * length s + 2 \<le> n \<longrightarrow> parseElements n s \<noteq> Inl OutOfFuel) \<and>
   (\<forall>s. 2 * length s + 2 \<le> n \<longrightarrow> parseMembers n s \<noteq> Inl OutOfFuel)"
proof (induction n)
  case 0
  show ?case by simp
next
  case (Suc n)
  then have ihV: "\<And>s. 2 * length s + 1 \<le> n \<Longrightarrow> parseValue n s \<noteq> Inl OutOfFuel"
    and ihE: "\<And>s. 2 * length s + 2 \<le> n \<Longrightarrow> parseElements n s \<noteq> Inl OutOfFuel"
    and ihM: "\<And>s. 2 * length s + 2 \<le> n \<Longrightarrow> parseMembers n s \<noteq> Inl OutOfFuel"
    by blast+
  have V: "parseValue (Suc n) s \<noteq> Inl OutOfFuel" if enough: "2 * length s + 1 \<le> Suc n" for s
  proof
    assume res: "parseValue (Suc n) s = Inl OutOfFuel"
    then obtain c cs where Cons: "skipWs s = c # cs"
      by (cases "skipWs s") (auto simp add: parseValue.simps)
    then have cs: "length cs < length s"
      by (rule skipWs_ConsD)
    consider (obj) "c = CHR ''{''" | (arr) "c \<noteq> CHR ''{''" "c = CHR ''[''"
      | (str) "c \<noteq> CHR ''{''" "c \<noteq> CHR ''[''" "c = CHR 0x22"
      | (num) "c \<noteq> CHR ''{''" "c \<noteq> CHR ''[''" "c \<noteq> CHR 0x22" "c = CHR ''-'' \<or> isDigit c"
      | (lit) "c \<noteq> CHR ''{''" "c \<noteq> CHR ''[''" "c \<noteq> CHR 0x22" "\<not> (c = CHR ''-'' \<or> isDigit c)"
      by blast
    then show False
    proof cases
      case obj
      with res Cons obtain d r0 where in2: "skipWs cs = d # r0"
        by (cases "skipWs cs") (auto simp add: parseValue.simps)
      with res Cons obj have "parseMembers n (d # r0) = Inl OutOfFuel"
        by (auto simp add: parseValue.simps split: if_splits sum.splits)
      moreover have "2 * length (d # r0) + 2 \<le> n"
        using skipWs_length [of cs] in2 cs enough by simp
      ultimately show False
        using ihM by blast
    next
      case arr
      with res Cons obtain d r0 where in2: "skipWs cs = d # r0"
        by (cases "skipWs cs") (auto simp add: parseValue.simps)
      with res Cons arr have "parseElements n (d # r0) = Inl OutOfFuel"
        by (auto simp add: parseValue.simps split: if_splits sum.splits)
      moreover have "2 * length (d # r0) + 2 \<le> n"
        using skipWs_length [of cs] in2 cs enough by simp
      ultimately show False
        using ihE by blast
    next
      case str
      with res Cons have "parseStringBody cs = Inl OutOfFuel"
        by (auto simp add: parseValue.simps split: sum.splits)
      then show False
        by (simp add: parseStringBody_fuel)
    next
      case num
      with res Cons have "parseNumber (c # cs) = Inl OutOfFuel"
        by (auto simp add: parseValue.simps split: sum.splits)
      then show False
        by (simp add: parseNumber_fuel)
    next
      case lit
      with res Cons show False
        by (auto simp add: parseValue.simps split: if_splits)
    qed
  qed
  have E: "parseElements (Suc n) s \<noteq> Inl OutOfFuel" if enough: "2 * length s + 2 \<le> Suc n" for s
  proof
    assume res: "parseElements (Suc n) s = Inl OutOfFuel"
    have "parseValue n s \<noteq> Inl OutOfFuel"
      using enough by (intro ihV) simp
    with res obtain v r1 where v: "parseValue n s = Inr (v, r1)"
      by (cases "parseValue n s") (auto simp add: parseElements.simps)
    then have l1: "length r1 < length s"
      by (rule parse_progressV)
    from res v obtain d r2 where sk: "skipWs r1 = d # r2"
      by (cases "skipWs r1") (auto simp add: parseElements.simps)
    then have l2: "length r2 < length r1"
      by (rule skipWs_ConsD)
    from res v sk have "parseElements n r2 = Inl OutOfFuel"
      by (auto simp add: parseElements.simps split: if_splits sum.splits)
    moreover have "2 * length r2 + 2 \<le> n"
      using l1 l2 enough by simp
    ultimately show False
      using ihE by blast
  qed
  have M: "parseMembers (Suc n) s \<noteq> Inl OutOfFuel" if enough: "2 * length s + 2 \<le> Suc n" for s
  proof
    assume res: "parseMembers (Suc n) s = Inl OutOfFuel"
    then obtain q cs where sk0: "skipWs s = q # cs"
      by (cases "skipWs s") (auto simp add: parseMembers.simps)
    then have l0: "length cs < length s"
      by (rule skipWs_ConsD)
    from res sk0 have q: "q = CHR 0x22"
      by (auto simp add: parseMembers.simps split: if_splits)
    from res sk0 q obtain k r1 where k: "parseStringBody cs = Inr (k, r1)"
      using parseStringBody_fuel [of cs]
      by (cases "parseStringBody cs") (auto simp add: parseMembers.simps)
    then have l1: "length r1 < length cs"
      by (rule parseStringBody_progress)
    from res sk0 q k obtain d r2 where sk1: "skipWs r1 = d # r2"
      by (cases "skipWs r1") (auto simp add: parseMembers.simps)
    then have l2: "length r2 < length r1"
      by (rule skipWs_ConsD)
    from res sk0 q k sk1 have d: "d = CHR '':''"
      by (auto simp add: parseMembers.simps split: if_splits)
    have "parseValue n r2 \<noteq> Inl OutOfFuel"
      using l0 l1 l2 enough by (intro ihV) simp
    with res sk0 q k sk1 d obtain v r3 where v: "parseValue n r2 = Inr (v, r3)"
      by (cases "parseValue n r2") (auto simp add: parseMembers.simps)
    then have l3: "length r3 < length r2"
      by (rule parse_progressV)
    from res sk0 q k sk1 d v obtain d' r4 where sk2: "skipWs r3 = d' # r4"
      by (cases "skipWs r3") (auto simp add: parseMembers.simps)
    then have l4: "length r4 < length r3"
      by (rule skipWs_ConsD)
    from res sk0 q k sk1 d v sk2 have "parseMembers n r4 = Inl OutOfFuel"
      by (auto simp add: parseMembers.simps split: if_splits sum.splits)
    moreover have "2 * length r4 + 2 \<le> n"
      using l0 l1 l2 l3 l4 enough by simp
    ultimately show False
      using ihM by blast
  qed
  from V E M show ?case
    by blast
qed

lemma JSON_parse_total: "JSON_parse stored \<noteq> Inl OutOfFuel"
proof -
  have "parseValue (2 * length stored + 1) stored \<noteq> Inl OutOfFuel"
    using parse_fuel [of "2 * length stored + 1"] by simp
  then show ?thesis
    by (auto simp add: JSON_parse_def split: sum.splits)
qed

subsection \<open>Saving and loading\<close>

lemma JSON_stringify_not_Nil: "JSON_stringify v \<noteq> []"
  by (simp add: JSON_stringify_def)

lemma toJS_inj: "inj toJS"
proof (rule injI)
  fix a b :: TableState
  assume eq: "toJS a = toJS b"
  have "sortField a = sortField b"
    using eq
    by (cases "sortField a"; cases "sortField b")
       (auto simp add: toJS_def split: SortField.splits)
  moreover have "sortOrder a = sortOrder b"
    using eq by (cases "sortOrder a"; cases "sortOrder b") (auto simp add: toJS_def)
  moreover have "searchQuery a = searchQuery b" "idFilter a = idFilter b" "page a = page b"
    using eq by (simp_all add: toJS_def)
  ultimately show "a = b"
    by simp
qed

text \<open>
  C6. Whatever was stored before and whatever default is passed, loading under the key
  a state was saved under returns that state: the object with its five fields, which
  determines the state (\<open>toJS_inj\<close>). The statement covers every \<open>TableState\<close>,
  valid or not.
\<close>

theorem C6_load_save_round_trip:
  "loadFromLocalStorage key d (saveToLocalStorage key s ls) = Inr (toJS s)"
  by (simp add: loadFromLocalStorage_def saveToLocalStorage_def getItem_def setItem_def
        JSON_stringify_not_Nil parse_stringify)

text \<open>
  C1, as amended. When nothing or the empty string is stored under the key,
  \<open>loadFromLocalStorage\<close> returns the default it was given. When a non-empty text is
  stored that \<open>JSON.parse\<close> rejects, the \<open>SyntaxError\<close> of \<open>JSON.parse\<close> is the outcome
  of \<open>loadFromLocalStorage\<close>: the default is not returned.
\<close>

theorem C1_load_default_or_throw:
  "(getItem key ls = None \<or> getItem key ls = Some [] \<longrightarrow>
      loadFromLocalStorage key d ls = Inr (toJS d)) \<and>
   (getItem key ls = Some stored \<and> stored \<noteq> [] \<and> JSON_parse stored = Inl SyntaxError \<longrightarrow>
      loadFromLocalStorage key d ls = Inl SyntaxError)"
  by (auto simp add: loadFromLocalStorage_def)

theorem C1_load_default_or_throw_witness:
  "loadFromLocalStorage ''tableState'' defaultState Map.empty = Inr (toJS defaultState) \<and>
   loadFromLocalStorage ''tableState'' defaultState (setItem ''tableState'' [] Map.empty) =
     Inr (toJS defaultState) \<and>
   loadFromLocalStorage ''tableState'' defaultState
     (setItem ''tableState'' (take 20 (JSON_stringify defaultState)) Map.empty) = Inl SyntaxError"
proof -
  let ?cut = "take 20 (JSON_stringify defaultState)"
  have g: "getItem ''tableState'' (setItem ''tableState'' ?cut Map.empty) = Some ?cut"
    by (simp add: getItem_def setItem_def)
  have n: "?cut \<noteq> []"
    by code_simp
  have e: "JSON_parse ?cut = Inl SyntaxError"
    by code_simp
  show ?thesis
    using C1_load_default_or_throw [of "''tableState''" Map.empty defaultState]
      C1_load_default_or_throw [of "''tableState''" "setItem ''tableState'' [] Map.empty" defaultState]
      C1_load_default_or_throw
        [of "''tableState''" "setItem ''tableState'' ?cut Map.empty" defaultState ?cut]
      g n e
    by (simp add: getItem_def setItem_def)
qed

text \<open>
  The claim C1 as it is written fails at a corrupt entry: with the text \<open>{\<close> stored
  under the key, \<open>loadFromLocalStorage\<close> throws the \<open>SyntaxError\<close> of \<open>JSON.parse\<close>
  and does not return the default.
\<close>

theorem C1_corrupt_entry_counterexample:
  "getItem ''tableState'' (setItem ''tableState'' ''{'' Map.empty) = Some ''{'' \<and>
   JSON_parse ''{'' = Inl SyntaxError \<and>
   loadFromLocalStorage ''tableState'' defaultState (setItem ''tableState'' ''{'' Map.empty) =
     Inl SyntaxError \<and>
   loadFromLocalStorage ''tableState'' defaultState (setItem ''tableState'' ''{'' Map.empty) \<noteq>
     Inr (toJS defaultState)"
  by code_simp

text \<open>
  C10. When a non-empty text is stored under the key and \<open>JSON.parse\<close> accepts it,
  \<open>loadFromLocalStorage\<close> returns the value the text denotes, whatever its shape, and
  the result does not depend on the default. The default is the result when nothing
  or the empty string is stored.
\<close>

theorem C10_load_no_shape_validation:
  "(getItem key ls = Some stored \<and> stored \<noteq> [] \<and> JSON_parse stored = Inr v \<longrightarrow>
      loadFromLocalStorage key d ls = Inr v) \<and>
   (getItem key ls = Some stored \<and> stored \<noteq> [] \<longrightarrow>
      loadFromLocalStorage key d ls = loadFromLocalStorage key d' ls) \<and>
   (getItem key ls = None \<or> getItem key ls = Some [] \<longrightarrow>
      loadFromLocalStorage key d ls = Inr (toJS d))"
  by (auto simp add: loadFromLocalStorage_def)

text \<open>
  The number 42 and an object whose \<open>page\<close> is an array are returned as they are.
\<close>

theorem C10_load_no_shape_validation_witness:
  "loadFromLocalStorage ''tableState'' defaultState (setItem ''tableState'' ''42'' Map.empty) =
     Inr (JNum 42) \<and>
   loadFromLocalStorage ''tableState'' defaultState
     (setItem ''tableState'' (CHR ''{'' # quoteJSONString ''page'' @ '':[true]}'') Map.empty) =
     Inr (JObj [(''page'', JArr [JBool True])]) \<and>
   loadFromLocalStorage ''tableState'' (defaultState\<lparr>page := 7\<rparr>)
     (setItem ''tableState'' ''42'' Map.empty) =
   loadFromLocalStorage ''tableState'' defaultState (setItem ''tableState'' ''42'' Map.empty) \<and>
   loadFromLocalStorage ''tableState'' (defaultState\<lparr>page := 7\<rparr>) Map.empty =
     Inr (toJS (defaultState\<lparr>page := 7\<rparr>))"
proof -
  let ?obj = "CHR ''{'' # quoteJSONString ''page'' @ '':[true]}''"
  have p1: "JSON_parse ''42'' = Inr (JNum 42)"
    by code_simp
  have p2: "JSON_parse ?obj = Inr (JObj [(''page'', JArr [JBool True])])"
    by code_simp
  have n2: "?obj \<noteq> []"
    by simp
  show ?thesis
    using
      C10_load_no_shape_validation
        [of "''tableState''" "setItem ''tableState'' ''42'' Map.empty" "''42''" "JNum 42"
           defaultState "defaultState\<lparr>page := 7\<rparr>"]
      C10_load_no_shape_validation
        [of "''tableState''" "setItem ''tableState'' ?obj Map.empty" ?obj
           "JObj [(''page'', JArr [JBool True])]" defaultState defaultState]
      C10_load_no_shape_validation
        [of "''tableState''" Map.empty "[]" JNull "defaultState\<lparr>page := 7\<rparr>" defaultState]
      p1 p2 n2
    by (auto simp add: getItem_def setItem_def)
qed

end
